theory Spec2Isabelle
  imports Main "HOL-Library.AList" "HOL-Library.Sublist" "HOL-Library.Multiset"
begin

section \<open>Data model\<close>

text \<open>
  A tab as the host hands it to the extension (\<^verbatim>\<open>chrome.tabs.query\<close>): the integer id, the
  title and the URL (either may be missing), and the screenshot the background worker attaches
  before forwarding the list (\<^verbatim>\<open>null\<close> is \<open>None\<close>). Fields the code never reads are left out.
\<close>

record tab =
  tab_id :: int
  title :: "string option"
  tab_url :: "string option"
  screenshot :: "string option"

text \<open>
  A screenshot cache entry \<^verbatim>\<open>{ dataUrl, timestamp, url }\<close>. The timestamp is optional because
  the pruning comparator reads it as \<^verbatim>\<open>timestamp || 0\<close>; the URL is \<^verbatim>\<open>null\<close> by default.
\<close>

record entry =
  dataUrl :: string
  timestamp :: "int option"
  url :: "string option"

text \<open>
  \<^verbatim>\<open>tabScreenshotCache\<close> is a JavaScript \<^verbatim>\<open>Map\<close>: keys are unique and iteration follows insertion
  order. It is an association list; \<^verbatim>\<open>Map.set\<close> is \<^const>\<open>AList.update\<close> (overwrite in place, or
  append), \<^verbatim>\<open>Map.delete\<close> is \<^const>\<open>AList.delete\<close>, \<^verbatim>\<open>Map.get\<close> is \<^const>\<open>map_of\<close> and
  \<^verbatim>\<open>Map.size\<close> is \<^const>\<open>length\<close>.
\<close>

type_synonym cache = "(int \<times> entry) list"

section \<open>Background worker: MRU order\<close>

text \<open>
  The MRU update of the \<^verbatim>\<open>chrome.tabs.onActivated\<close> listener: filter the id out, unshift it,
  and slice to 100 entries when the list is longer.
\<close>

definition recordActivation :: "int list \<Rightarrow> int \<Rightarrow> int list" where
  "recordActivation mruTabOrder tabId =
     (let m1 = filter (\<lambda>i. i \<noteq> tabId) mruTabOrder;
          m2 = tabId # m1
      in if length m2 > 100 then take 100 m2 else m2)"

text \<open>
  \<^verbatim>\<open>sortTabsByMRU\<close>. \<open>tabMap\<close> is built by setting every tab under its id, so a later tab with
  the same id overwrites an earlier one. The first loop walks the MRU list and pushes the mapped
  tab of every id the map has; the second loop pushes the tabs whose id was not added.
\<close>

definition tabMap :: "tab list \<Rightarrow> (int \<rightharpoonup> tab)" where
  "tabMap tabs = foldl (\<lambda>m t. m(tab_id t \<mapsto> t)) Map.empty tabs"

fun addMruTabs :: "(int \<rightharpoonup> tab) \<Rightarrow> int list \<Rightarrow> tab list \<times> int set \<Rightarrow> tab list \<times> int set" where
  "addMruTabs tm [] acc = acc"
| "addMruTabs tm (tabId # rest) (sortedTabs, addedIds) =
     (case tm tabId of
        Some t \<Rightarrow> addMruTabs tm rest (sortedTabs @ [t], insert tabId addedIds)
      | None \<Rightarrow> addMruTabs tm rest (sortedTabs, addedIds))"

fun addRemainingTabs :: "int set \<Rightarrow> tab list \<Rightarrow> tab list \<Rightarrow> tab list" where
  "addRemainingTabs addedIds [] sortedTabs = sortedTabs"
| "addRemainingTabs addedIds (t # rest) sortedTabs =
     (if tab_id t \<notin> addedIds then addRemainingTabs addedIds rest (sortedTabs @ [t])
      else addRemainingTabs addedIds rest sortedTabs)"

definition sortTabsByMRU :: "int list \<Rightarrow> tab list \<Rightarrow> tab list" where
  "sortTabsByMRU mruTabOrder tabs =
     (let (sortedTabs, addedIds) = addMruTabs (tabMap tabs) mruTabOrder ([], {})
      in addRemainingTabs addedIds tabs sortedTabs)"

section \<open>Background worker: screenshot cache\<close>

definition MAX_SCREENSHOT_CACHE_ITEMS :: nat where
  "MAX_SCREENSHOT_CACHE_ITEMS = 25"

text \<open>The sort key of the pruning comparator, \<^verbatim>\<open>entry.timestamp || 0\<close>.\<close>

definition timestampOrZero :: "int \<times> entry \<Rightarrow> int" where
  "timestampOrZero p = (case timestamp (snd p) of None \<Rightarrow> 0 | Some t \<Rightarrow> t)"

text \<open>
  The \<^verbatim>\<open>while\<close> loop of \<^verbatim>\<open>pruneScreenshotCache\<close>: while the cache is over the cap and sorted
  entries remain, shift the first one and delete its key from the cache.
\<close>

fun pruneLoop :: "cache \<Rightarrow> (int \<times> entry) list \<Rightarrow> cache" where
  "pruneLoop c [] = c"
| "pruneLoop c (oldest # entries) =
     (if length c > MAX_SCREENSHOT_CACHE_ITEMS
      then pruneLoop (AList.delete (fst oldest) c) entries
      else c)"

text \<open>
  \<^verbatim>\<open>Array.prototype.sort\<close> is stable and the comparator is the difference of the keys, so the
  sort is \<^const>\<open>sort_key\<close> (a stable insertion sort) on \<^const>\<open>timestampOrZero\<close>.
\<close>

definition pruneScreenshotCache :: "cache \<Rightarrow> cache" where
  "pruneScreenshotCache c =
     (if length c \<le> MAX_SCREENSHOT_CACHE_ITEMS then c
      else pruneLoop c (sort_key timestampOrZero c))"

text \<open>\<^verbatim>\<open>setScreenshot\<close>; \<open>now\<close> is the value of \<^verbatim>\<open>Date.now()\<close> at the call.\<close>

definition setScreenshot :: "cache \<Rightarrow> int \<Rightarrow> int \<Rightarrow> string \<Rightarrow> string option \<Rightarrow> cache" where
  "setScreenshot c now tabId d u =
     pruneScreenshotCache (AList.update tabId \<lparr>dataUrl = d, timestamp = Some now, url = u\<rparr> c)"

definition deleteScreenshot :: "cache \<Rightarrow> int \<Rightarrow> cache" where
  "deleteScreenshot c tabId = AList.delete tabId c"

text \<open>
  \<^verbatim>\<open>getScreenshot\<close>. A string is truthy when it is not empty. The lookup by tab id answers when
  the entry exists and has a truthy \<^verbatim>\<open>dataUrl\<close>; otherwise, when the given URL is truthy, the
  loop over the entries in insertion order returns the first truthy \<^verbatim>\<open>dataUrl\<close> stored with
  that URL; otherwise the result is \<^verbatim>\<open>null\<close>.
\<close>

fun urlScan :: "cache \<Rightarrow> string \<Rightarrow> string option" where
  "urlScan [] u = None"
| "urlScan ((k, cachedEntry) # rest) u =
     (if url cachedEntry = Some u \<and> dataUrl cachedEntry \<noteq> [] then Some (dataUrl cachedEntry)
      else urlScan rest u)"

definition urlFallback :: "cache \<Rightarrow> string option \<Rightarrow> string option" where
  "urlFallback c u = (case u of None \<Rightarrow> None | Some s \<Rightarrow> if s \<noteq> [] then urlScan c s else None)"

definition getScreenshot :: "cache \<Rightarrow> int \<Rightarrow> string option \<Rightarrow> string option" where
  "getScreenshot c tabId u =
     (case map_of c tabId of
        Some e \<Rightarrow> if dataUrl e \<noteq> [] then Some (dataUrl e) else urlFallback c u
      | None \<Rightarrow> urlFallback c u)"

section \<open>Foreground: the switcher controller\<close>

subsection \<open>JavaScript primitives the controller uses\<close>

text \<open>
  \<^verbatim>\<open>String.prototype.toLowerCase\<close> belongs to the host and follows the Unicode case mapping,
  which is not a character-by-character map. It is not modelled: every operation that calls
  it, or calls one that does, takes it as its first argument \<open>toLowerCase\<close>, and what is
  proved holds for every such function.
\<close>

text \<open>\<^verbatim>\<open>s.includes(q)\<close>: \<open>q\<close> occurs in \<open>s\<close> as a contiguous substring.\<close>

fun includesStr :: "string \<Rightarrow> string \<Rightarrow> bool" where
  "includesStr [] q = (q = [])"
| "includesStr (ch # s) q = (prefix q (ch # s) \<or> includesStr s q)"

text \<open>
  \<^verbatim>\<open>parseInt(s, 10)\<close>: leading white space is skipped, a sign is read, then the longest run of
  decimal digits; without a digit the result is \<^verbatim>\<open>NaN\<close>, which is \<open>None\<close>.
\<close>

definition isWhiteSpace :: "char \<Rightarrow> bool" where
  "isWhiteSpace ch = (ch \<in> set [CHR '' '', CHR 0x09, CHR 0x0A, CHR 0x0B, CHR 0x0C, CHR 0x0D])"

definition digitValue :: "char \<Rightarrow> int option" where
  "digitValue ch = map_of (zip ''0123456789'' [0, 1, 2, 3, 4, 5, 6, 7, 8, 9]) ch"

definition parseInt10 :: "string \<Rightarrow> int option" where
  "parseInt10 s =
     (let s1 = dropWhile isWhiteSpace s;
          neg = (case s1 of ch # _ \<Rightarrow> ch = CHR ''-'' | [] \<Rightarrow> False);
          s2 = (case s1 of ch # r \<Rightarrow> if ch = CHR ''-'' \<or> ch = CHR ''+'' then r else s1 | [] \<Rightarrow> s1);
          ds = takeWhile (\<lambda>ch. digitValue ch \<noteq> None) s2;
          n = foldl (\<lambda>a ch. 10 * a + the (digitValue ch)) 0 ds
      in if ds = [] then None else Some (if neg then - n else n))"

text \<open>
  \<^verbatim>\<open>xs.slice(0, end)\<close>: a \<^verbatim>\<open>NaN\<close> end is 0, a negative end counts from the back (not below 0),
  an end past the length is the length.
\<close>

definition slice0 :: "'a list \<Rightarrow> int option \<Rightarrow> 'a list" where
  "slice0 xs e =
     (case e of
        None \<Rightarrow> []
      | Some n \<Rightarrow> if n < 0 then take (nat (int (length xs) + n)) xs else take (nat n) xs)"

text \<open>\<^verbatim>\<open>xs[i]\<close> for an integer \<open>i\<close>: \<^verbatim>\<open>undefined\<close> (here \<open>None\<close>) outside the array.\<close>

definition at :: "'a list \<Rightarrow> int \<Rightarrow> 'a option" where
  "at xs i = (if 0 \<le> i \<and> i < int (length xs) then Some (xs ! nat i) else None)"

text \<open>The remainder operator \<^verbatim>\<open>a % b\<close> on integers: it truncates, the sign follows \<open>a\<close>.\<close>

definition jsRem :: "int \<Rightarrow> int \<Rightarrow> int" where
  "jsRem a b = sgn a * (\<bar>a\<bar> mod \<bar>b\<bar>)"

subsection \<open>State\<close>

text \<open>
  The direction of a toggle request. The background worker sends \<^verbatim>\<open>"forward"\<close> or
  \<^verbatim>\<open>"backward"\<close>; the controller tests for \<^verbatim>\<open>"forward"\<close> and takes the other branch otherwise.
\<close>

datatype direction = Forward | Backward

record hotkey_settings =
  closeTab :: "string option"
  nextTab :: "string option"
  prevTab :: "string option"

record settings =
  maxTabs :: string
  hotkeys :: "hotkey_settings option"

text \<open>The messages the controller sends to the background worker.\<close>

datatype message = SwitcherShown | SwitcherHidden | SwitchToTab int | CloseTab int

text \<open>
  The module-level variables of the content script, the width of the window it runs in, and a
  log of the messages sent so far. \<open>shadowRoot\<close> tells whether the overlay with its grid
  exists. \<^verbatim>\<open>autoSwitchTimer\<close> is left out: \<^verbatim>\<open>startAutoSwitchTimer\<close> only ever leaves it \<^verbatim>\<open>null\<close>.
  Every handler below runs to completion before the next event is handled.
\<close>

record state =
  switcherVisible :: bool
  shadowRoot :: bool
  currentTabs :: "tab list"
  currentTabId :: "int option"
  selectedIndex :: int
  searchQuery :: string
  ctrlPressed :: bool
  metaPressed :: bool
  shiftPressed :: bool
  altPressed :: bool
  currentSettings :: settings
  innerWidth :: int
  sent :: "message list"

text \<open>The \<^verbatim>\<open>toggleSwitcher\<close> message; a field may be missing from the message object.\<close>

record toggleRequest =
  req_tabs :: "tab list option"
  req_currentTabId :: "int option"
  req_direction :: "direction option"

subsection \<open>Operations\<close>

definition getMaxTabsForWidth :: "state \<Rightarrow> int option" where
  "getMaxTabsForWidth s =
     (if maxTabs (currentSettings s) \<noteq> ''auto'' then parseInt10 (maxTabs (currentSettings s))
      else
        let windowWidth = innerWidth s;
            tabWidth = 160;
            tabGap = 8;
            containerPadding = 24;
            minMargin = 100;
            availableWidth = windowWidth - minMargin * 2 - containerPadding;
            mx = (availableWidth + tabGap) div (tabWidth + tabGap)
        in Some (max 1 mx))"

text \<open>\<^verbatim>\<open>tab.title || ''\<close> and \<^verbatim>\<open>tab.url || ''\<close>: a missing field reads as the empty string.\<close>

definition titleOrEmpty :: "tab \<Rightarrow> string" where
  "titleOrEmpty t = (case title t of None \<Rightarrow> [] | Some x \<Rightarrow> x)"

definition urlOrEmpty :: "tab \<Rightarrow> string" where
  "urlOrEmpty t = (case tab_url t of None \<Rightarrow> [] | Some x \<Rightarrow> x)"

definition getFilteredTabs ::
  "(string \<Rightarrow> string) \<Rightarrow> state \<Rightarrow> tab list" where
  "getFilteredTabs toLowerCase s =
     (if searchQuery s = [] then currentTabs s
      else
        let query = toLowerCase (searchQuery s)
        in filter (\<lambda>t.
             let ttl = toLowerCase (titleOrEmpty t);
                 u = toLowerCase (urlOrEmpty t)
             in includesStr ttl query \<or> includesStr u query) (currentTabs s))"

text \<open>\<^verbatim>\<open>renderTabs\<close>, as far as it touches the state: it clamps the selected index.\<close>

definition renderTabs ::
  "(string \<Rightarrow> string) \<Rightarrow> state \<Rightarrow> state" where
  "renderTabs toLowerCase s =
     (if \<not> shadowRoot s then s
      else
        let n = int (length (getFilteredTabs toLowerCase s));
            s1 = (if selectedIndex s \<ge> n then s\<lparr>selectedIndex := n - 1\<rparr> else s)
        in if selectedIndex s1 < 0 then s1\<lparr>selectedIndex := 0\<rparr> else s1)"

text \<open>
  \<^verbatim>\<open>loadSettings\<close>: \<open>stored\<close> is the settings object found in storage, if any (the options page
  always saves a complete object, so it replaces the current one).
\<close>

definition loadSettings :: "state \<Rightarrow> settings option \<Rightarrow> state" where
  "loadSettings s stored = (case stored of None \<Rightarrow> s | Some st \<Rightarrow> s\<lparr>currentSettings := st\<rparr>)"

definition showSwitcher ::
  "(string \<Rightarrow> string) \<Rightarrow> state \<Rightarrow> settings option \<Rightarrow> state" where
  "showSwitcher toLowerCase s stored =
     (if switcherVisible s then s
      else
        let s1 = loadSettings s stored;
            s2 = s1\<lparr>switcherVisible := True, searchQuery := [], sent := sent s1 @ [SwitcherShown],
                   shadowRoot := True\<rparr>
        in renderTabs toLowerCase s2)"

definition hideSwitcher :: "state \<Rightarrow> state" where
  "hideSwitcher s =
     (if \<not> switcherVisible s then s
      else s\<lparr>shadowRoot := False, switcherVisible := False, searchQuery := [],
             ctrlPressed := False, metaPressed := False, shiftPressed := False, altPressed := False,
             sent := sent s @ [SwitcherHidden]\<rparr>)"

text \<open>
  The \<^verbatim>\<open>toggleSwitcher\<close> branch of the message listener, in its three parts. First the
  request is taken in: \<^verbatim>\<open>request.tabs || []\<close> is cut to the capacity and stored together with
  \<^verbatim>\<open>request.currentTabId\<close>; the direction is \<^verbatim>\<open>request.direction || "forward"\<close>.
\<close>

definition requestTabs :: "toggleRequest \<Rightarrow> tab list" where
  "requestTabs request = (case req_tabs request of None \<Rightarrow> [] | Some ts \<Rightarrow> ts)"

definition requestDirection :: "toggleRequest \<Rightarrow> direction" where
  "requestDirection request = (case req_direction request of None \<Rightarrow> Forward | Some d \<Rightarrow> d)"

definition receiveTabs :: "state \<Rightarrow> toggleRequest \<Rightarrow> state" where
  "receiveTabs s request =
     (let s1 = s\<lparr>currentTabs := requestTabs request, currentTabId := req_currentTabId request\<rparr>;
          mx = getMaxTabsForWidth s1;
          limitedTabs = slice0 (currentTabs s1) mx
      in s1\<lparr>currentTabs := limitedTabs\<rparr>)"

text \<open>
  With the switcher visible, the selection cycles through the filtered tabs (the same
  statements serve the next-tab and previous-tab hotkeys).
\<close>

definition cycleSelection ::
  "(string \<Rightarrow> string) \<Rightarrow> state \<Rightarrow> direction \<Rightarrow> state" where
  "cycleSelection toLowerCase s direction =
     (let filteredTabs = getFilteredTabs toLowerCase s;
          n = int (length filteredTabs)
      in if n > 0 then
           (if direction = Forward
            then renderTabs toLowerCase (s\<lparr>selectedIndex := jsRem (selectedIndex s + 1) n\<rparr>)
            else renderTabs toLowerCase (s\<lparr>selectedIndex := jsRem (selectedIndex s - 1 + n) n\<rparr>))
         else s)"

text \<open>With the switcher hidden, the initial selection is set before the switcher is shown.\<close>

definition initialSelection :: "state \<Rightarrow> direction \<Rightarrow> state" where
  "initialSelection s direction =
     (let n = int (length (currentTabs s))
      in if direction = Forward
         then s\<lparr>selectedIndex := (if n > 1 then 1 else 0)\<rparr>
         else s\<lparr>selectedIndex := (if n > 1 then n - 1 else 0)\<rparr>)"

definition onToggleSwitcher ::
  "(string \<Rightarrow> string) \<Rightarrow> state \<Rightarrow> toggleRequest \<Rightarrow> settings option \<Rightarrow> state" where
  "onToggleSwitcher toLowerCase s request stored =
     (let s2 = receiveTabs s request;
          direction = requestDirection request
      in if switcherVisible s2 then cycleSelection toLowerCase s2 direction
         else showSwitcher toLowerCase (initialSelection s2 direction) stored)"

text \<open>\<^verbatim>\<open>switchToTab\<close> sends the request; its callback hides the switcher.\<close>

definition switchToTab :: "state \<Rightarrow> int \<Rightarrow> state" where
  "switchToTab s tabId = s\<lparr>sent := sent s @ [SwitchToTab tabId]\<rparr>"

definition switchToTab_callback :: "state \<Rightarrow> state" where
  "switchToTab_callback s = hideSwitcher s"

text \<open>
  \<^verbatim>\<open>closeSelectedTab\<close> up to the request, and the callback of the request: \<open>tabId\<close> is the id
  of the tab the request named, \<open>lastError\<close> tells whether \<^verbatim>\<open>chrome.runtime.lastError\<close> is set.
\<close>

definition closeSelectedTab ::
  "(string \<Rightarrow> string) \<Rightarrow> state \<Rightarrow> state" where
  "closeSelectedTab toLowerCase s =
     (let filteredTabs = getFilteredTabs toLowerCase s
      in if length filteredTabs = 0 then s
         else case at filteredTabs (selectedIndex s) of
                None \<Rightarrow> s
              | Some tabToClose \<Rightarrow>
                  if Some (tab_id tabToClose) = currentTabId s then s
                  else s\<lparr>sent := sent s @ [CloseTab (tab_id tabToClose)]\<rparr>)"

definition closeTab_callback ::
  "(string \<Rightarrow> string) \<Rightarrow> state \<Rightarrow> int \<Rightarrow> bool \<Rightarrow> state" where
  "closeTab_callback toLowerCase s tabId lastError =
     (if lastError then s
      else
        let s1 = s\<lparr>currentTabs := filter (\<lambda>t. tab_id t \<noteq> tabId) (currentTabs s)\<rparr>;
            n = int (length (currentTabs s1));
            s2 = (if selectedIndex s1 \<ge> n then s1\<lparr>selectedIndex := max 0 (n - 1)\<rparr> else s1)
        in if n = 0 then hideSwitcher s2 else renderTabs toLowerCase s2)"

text \<open>The modifier bookkeeping shared by the key handlers.\<close>

definition pressModifier :: "state \<Rightarrow> string \<Rightarrow> state" where
  "pressModifier s key =
     (let s1 = (if key = ''Control'' then s\<lparr>ctrlPressed := True\<rparr> else s);
          s2 = (if key = ''Meta'' then s1\<lparr>metaPressed := True\<rparr> else s1);
          s3 = (if key = ''Shift'' then s2\<lparr>shiftPressed := True\<rparr> else s2)
      in if key = ''Alt'' then s3\<lparr>altPressed := True\<rparr> else s3)"

definition releaseModifier :: "state \<Rightarrow> string \<Rightarrow> state" where
  "releaseModifier s key =
     (let s1 = (if key = ''Control'' then s\<lparr>ctrlPressed := False\<rparr> else s);
          s2 = (if key = ''Meta'' then s1\<lparr>metaPressed := False\<rparr> else s1);
          s3 = (if key = ''Shift'' then s2\<lparr>shiftPressed := False\<rparr> else s2)
      in if key = ''Alt'' then s3\<lparr>altPressed := False\<rparr> else s3)"

text \<open>
  The hotkeys as \<^verbatim>\<open>handleGlobalKeydown\<close> reads them: \<^verbatim>\<open>currentSettings.hotkeys || {}\<close>, then
  \<^verbatim>\<open>(hotkeys.closeTab || 'w').toLowerCase()\<close>, \<^verbatim>\<open>hotkeys.nextTab || 'ArrowRight'\<close> and
  \<^verbatim>\<open>hotkeys.prevTab || 'ArrowLeft'\<close>.
\<close>

definition hotkeysOrEmpty :: "state \<Rightarrow> hotkey_settings" where
  "hotkeysOrEmpty s =
     (case hotkeys (currentSettings s) of
        None \<Rightarrow> \<lparr>closeTab = None, nextTab = None, prevTab = None\<rparr>
      | Some h \<Rightarrow> h)"

definition orDefault :: "string option \<Rightarrow> string \<Rightarrow> string" where
  "orDefault v d = (case v of None \<Rightarrow> d | Some k \<Rightarrow> if k = [] then d else k)"

definition closeTabKey ::
  "(string \<Rightarrow> string) \<Rightarrow> state \<Rightarrow> string" where
  "closeTabKey toLowerCase s = toLowerCase (orDefault (closeTab (hotkeysOrEmpty s)) ''w'')"

definition nextTabKey :: "state \<Rightarrow> string" where
  "nextTabKey s = orDefault (nextTab (hotkeysOrEmpty s)) ''ArrowRight''"

definition prevTabKey :: "state \<Rightarrow> string" where
  "prevTabKey s = orDefault (prevTab (hotkeysOrEmpty s)) ''ArrowLeft''"

definition handleGlobalKeydown ::
  "(string \<Rightarrow> string) \<Rightarrow> state \<Rightarrow> string \<Rightarrow> state" where
  "handleGlobalKeydown toLowerCase s key =
     (let s1 = pressModifier s key
      in if \<not> switcherVisible s1 then s1
         else if key = ''Escape'' then hideSwitcher s1
         else if toLowerCase key = closeTabKey toLowerCase s1 then closeSelectedTab toLowerCase s1
         else if key = nextTabKey s1 then cycleSelection toLowerCase s1 Forward
         else if key = prevTabKey s1 then cycleSelection toLowerCase s1 Backward
         else s1)"

definition handleGlobalKeyup ::
  "(string \<Rightarrow> string) \<Rightarrow> state \<Rightarrow> string \<Rightarrow> state" where
  "handleGlobalKeyup toLowerCase s key =
     (let s1 = releaseModifier s key
      in if \<not> switcherVisible s1 then s1
         else if key = ''Control'' \<or> key = ''Meta'' \<or> key = ''Alt'' \<or> key = ''Shift'' then
           (if \<not> ctrlPressed s1 \<and> \<not> metaPressed s1 \<and> \<not> altPressed s1 \<and> \<not> shiftPressed s1 then
              (case at (getFilteredTabs toLowerCase s1) (selectedIndex s1) of
                 Some t \<Rightarrow> switchToTab s1 (tab_id t)
               | None \<Rightarrow> s1)
            else s1)
         else s1)"

text \<open>The \<^verbatim>\<open>blur\<close> listener of the window.\<close>

definition onBlur :: "state \<Rightarrow> state" where
  "onBlur s = s\<lparr>ctrlPressed := False, metaPressed := False, shiftPressed := False, altPressed := False\<rparr>"

text \<open>
  The events the controller reacts to. A key event first runs the document listener installed
  at load (the modifier bookkeeping alone), then, while the switcher is visible, the handler
  that \<^verbatim>\<open>setupEventListeners\<close> installed and \<^verbatim>\<open>hideSwitcher\<close> removes. \<open>MouseEnter i\<close> is the
  pointer entering card \<open>i\<close> of the rendered grid.
\<close>

datatype event =
    KeyDown string
  | KeyUp string
  | Blur
  | ToggleSwitcher toggleRequest "settings option"
  | SwitchToTabResponse
  | CloseTabResponse int bool
  | MouseEnter nat

fun step ::
  "(string \<Rightarrow> string) \<Rightarrow> state \<Rightarrow> event \<Rightarrow> state" where
  "step toLowerCase s (KeyDown key) =
     (let s1 = pressModifier s key in if switcherVisible s1 then handleGlobalKeydown toLowerCase s1 key else s1)"
| "step toLowerCase s (KeyUp key) =
     (let s1 = releaseModifier s key in if switcherVisible s1 then handleGlobalKeyup toLowerCase s1 key else s1)"
| "step toLowerCase s Blur = onBlur s"
| "step toLowerCase s (ToggleSwitcher request stored) = onToggleSwitcher toLowerCase s request stored"
| "step toLowerCase s SwitchToTabResponse = switchToTab_callback s"
| "step toLowerCase s (CloseTabResponse tabId lastError) = closeTab_callback toLowerCase s tabId lastError"
| "step toLowerCase s (MouseEnter i) =
     (if shadowRoot s \<and> i < length (getFilteredTabs toLowerCase s) then renderTabs toLowerCase (s\<lparr>selectedIndex := int i\<rparr>)
      else s)"

text \<open>The state of a freshly loaded content script.\<close>

definition initialState :: "int \<Rightarrow> state" where
  "initialState width =
     \<lparr>switcherVisible = False, shadowRoot = False, currentTabs = [], currentTabId = None,
      selectedIndex = 0, searchQuery = [], ctrlPressed = False, metaPressed = False,
      shiftPressed = False, altPressed = False,
      currentSettings = \<lparr>maxTabs = ''auto'',
        hotkeys = Some \<lparr>closeTab = Some ''w'', nextTab = Some ''ArrowRight'', prevTab = Some ''ArrowLeft''\<rparr>\<rparr>,
      innerWidth = width, sent = []\<rparr>"

section \<open>Background worker: the toggle command\<close>

definition isRestrictedUrl :: "string \<Rightarrow> bool" where
  "isRestrictedUrl u =
     (prefix ''chrome://'' u \<or> prefix ''chrome-extension://'' u \<or> prefix ''edge://'' u \<or>
      prefix ''about:'' u \<or> prefix ''devtools://'' u)"

text \<open>
  \<^verbatim>\<open>toggleTabSwitcher\<close>. The host's answers are arguments: \<open>activeTab\<close> is the active tab of the
  current window, if any, \<open>isLoaded\<close> the result of \<^verbatim>\<open>ensureContentScript\<close>, \<open>allTabs\<close> the tabs of
  the current window. The result is the \<^verbatim>\<open>toggleSwitcher\<close> message sent to the active tab, or
  \<open>None\<close> when the function returns before sending (a tab id of 0 is falsy, as is an empty
  URL). The tabs sent are the first 20 of the MRU order, each with its cached screenshot.
\<close>

definition attachScreenshots :: "cache \<Rightarrow> tab list \<Rightarrow> tab list" where
  "attachScreenshots c tabsToSend =
     map (\<lambda>t. t\<lparr>screenshot := getScreenshot c (tab_id t) (tab_url t)\<rparr>) tabsToSend"

definition toggleTabSwitcher ::
  "cache \<Rightarrow> int list \<Rightarrow> tab option \<Rightarrow> bool \<Rightarrow> tab list \<Rightarrow> direction \<Rightarrow> toggleRequest option" where
  "toggleTabSwitcher c mruTabOrder activeTab isLoaded allTabs direction =
     (case activeTab of
        None \<Rightarrow> None
      | Some t \<Rightarrow>
          if tab_id t = 0 then None
          else if (case tab_url t of None \<Rightarrow> False | Some u \<Rightarrow> u \<noteq> [] \<and> isRestrictedUrl u) then None
          else if \<not> isLoaded then None
          else
            let sortedTabs = sortTabsByMRU mruTabOrder allTabs;
                tabsToSend = take 20 sortedTabs;
                tabsWithScreenshots = attachScreenshots c tabsToSend
            in Some \<lparr>req_tabs = Some tabsWithScreenshots, req_currentTabId = Some (tab_id t),
                      req_direction = Some direction\<rparr>)"

section \<open>Auxiliary notions and examples\<close>

text \<open>
  The recency order of a sequence of activations on top of a starting list: the activated ids,
  latest activation first, each once, then the untouched rest of the starting list.
\<close>

definition recency :: "int list \<Rightarrow> int list \<Rightarrow> int list" where
  "recency m calls = rev (remdups calls) @ filter (\<lambda>i. i \<notin> set calls) m"

text \<open>
  A lower-casing function for the examples: it maps the ASCII capitals to their small letters
  and keeps every other character, as the host's function does on ASCII strings.
\<close>

definition asciiLowerChar :: "char \<Rightarrow> char" where
  "asciiLowerChar ch =
     (case map_of (zip ''ABCDEFGHIJKLMNOPQRSTUVWXYZ'' ''abcdefghijklmnopqrstuvwxyz'') ch of
        Some l \<Rightarrow> l
      | None \<Rightarrow> ch)"

definition asciiToLowerCase :: "string \<Rightarrow> string" where
  "asciiToLowerCase s = map asciiLowerChar s"

text \<open>Example tabs for the concrete checks below.\<close>

definition mkTab :: "int \<Rightarrow> string \<Rightarrow> tab" where
  "mkTab i ttl = \<lparr>tab_id = i, title = Some ttl, tab_url = None, screenshot = None\<rparr>"

text \<open>A put is \<open>(now, tabId, dataUrl, url)\<close>; a sequence of puts threads the cache through.\<close>

definition putAll :: "cache \<Rightarrow> (int \<times> int \<times> string \<times> string option) list \<Rightarrow> cache" where
  "putAll c puts = foldl (\<lambda>c (now, tabId, d, u). setScreenshot c now tabId d u) c puts"

text \<open>
  The entries pruning removes from a cache: the first (size minus cap) entries of the
  timestamp-sorted list.
\<close>

definition evicted :: "cache \<Rightarrow> (int \<times> entry) list" where
  "evicted c = take (length c - MAX_SCREENSHOT_CACHE_ITEMS) (sort_key timestampOrZero c)"

text \<open>An example cache at the cap: tabs 1 to 25, captured at times 101 to 125.\<close>

definition exampleCache :: cache where
  "exampleCache = map (\<lambda>i. (i, \<lparr>dataUrl = ''img'', timestamp = Some (100 + i), url = None\<rparr>)) [1..25]"

text \<open>Two cached tabs that were captured on the same page.\<close>

definition twoEntryCache :: cache where
  "twoEntryCache =
     [(1, \<lparr>dataUrl = ''img1'', timestamp = Some 10, url = Some ''https://a.example/''\<rparr>),
      (2, \<lparr>dataUrl = ''img2'', timestamp = Some 20, url = Some ''https://a.example/''\<rparr>)]"

text \<open>A forward toggle request for three tabs, sent from tab 1.\<close>

definition exampleRequest :: toggleRequest where
  "exampleRequest =
     \<lparr>req_tabs = Some [mkTab 1 ''A'', mkTab 2 ''B'', mkTab 3 ''C''],
      req_currentTabId = Some 1, req_direction = Some Forward\<rparr>"

definition shownOnce :: state where
  "shownOnce = onToggleSwitcher asciiToLowerCase (initialState 1920) exampleRequest None"

text \<open>
  The spec's scenario: Alt is held, the switcher is toggled forward twice over three tabs.
\<close>

definition heldTwice :: state where
  "heldTwice =
     foldl (step asciiToLowerCase) (initialState 1920)
       [KeyDown ''Alt'', ToggleSwitcher exampleRequest None, ToggleSwitcher exampleRequest None]"

text \<open>A visible switcher over five tabs with the fourth one selected.\<close>

definition fiveTabs :: state where
  "fiveTabs = (initialState 1920)\<lparr>switcherVisible := True, shadowRoot := True,
     currentTabs := [mkTab 1 ''A'', mkTab 2 ''B'', mkTab 3 ''C'', mkTab 4 ''D'', mkTab 5 ''E''],
     currentTabId := Some 1, selectedIndex := 3\<rparr>"

text \<open>
  What a handler can do to a modifier flag \<open>f\<close>: \<open>keeps f s s'\<close> says that the flag, when set
  in \<open>s\<close>, is still set in \<open>s'\<close> unless the step from \<open>s\<close> to \<open>s'\<close> tore the switcher down.
\<close>

definition keeps :: "(state \<Rightarrow> bool) \<Rightarrow> state \<Rightarrow> state \<Rightarrow> bool" where
  "keeps f s s' = (f s \<and> \<not> f s' \<longrightarrow> switcherVisible s \<and> \<not> switcherVisible s')"

text \<open>
  Following the spec's words, a case-insensitive substring match under the lower-casing
  \<open>lc\<close>: the lower-cased query occurs in the lower-cased text as a contiguous substring.
\<close>

definition containsIgnoringCase :: "(string \<Rightarrow> string) \<Rightarrow> string \<Rightarrow> string \<Rightarrow> bool" where
  "containsIgnoringCase lc s q = sublist (lc q) (lc s)"


text \<open>A window of 25 tabs, toggled from tab 1 in a window wide enough for 58 cards.\<close>

definition manyTabs :: "tab list" where
  "manyTabs = map (\<lambda>i. mkTab i ''t'') [1..25]"

definition sentRequest :: toggleRequest where
  "sentRequest =
     \<lparr>req_tabs = Some (attachScreenshots twoEntryCache (take 20 (sortTabsByMRU [2, 1] manyTabs))),
      req_currentTabId = Some 1, req_direction = Some Forward\<rparr>"

section \<open>Basic facts about the controller\<close>

lemma jsRem_nonneg: "0 \<le> a \<Longrightarrow> 0 < b \<Longrightarrow> jsRem a b = a mod b"
  by (cases "a = 0") (simp_all add: jsRem_def)

lemma jsRem_pred: "0 \<le> a \<Longrightarrow> 0 < n \<Longrightarrow> jsRem (a - 1 + n) n = (a - 1) mod n"
proof -
  assume "0 \<le> a" "0 < n"
  then have "0 \<le> a - 1 + n" by linarith
  then have "jsRem (a - 1 + n) n = (a - 1 + n) mod n" using \<open>0 < n\<close> by (rule jsRem_nonneg)
  then show ?thesis by simp
qed

lemma getFilteredTabs_cong:
  "currentTabs s = currentTabs t \<Longrightarrow> searchQuery s = searchQuery t \<Longrightarrow>
   getFilteredTabs lc s = getFilteredTabs lc t"
  by (simp add: getFilteredTabs_def)

lemma renderTabs_fields [simp]:
  "switcherVisible (renderTabs lc s) = switcherVisible s"
  "shadowRoot (renderTabs lc s) = shadowRoot s"
  "currentTabs (renderTabs lc s) = currentTabs s"
  "currentTabId (renderTabs lc s) = currentTabId s"
  "searchQuery (renderTabs lc s) = searchQuery s"
  "ctrlPressed (renderTabs lc s) = ctrlPressed s"
  "metaPressed (renderTabs lc s) = metaPressed s"
  "shiftPressed (renderTabs lc s) = shiftPressed s"
  "altPressed (renderTabs lc s) = altPressed s"
  "currentSettings (renderTabs lc s) = currentSettings s"
  "innerWidth (renderTabs lc s) = innerWidth s"
  "sent (renderTabs lc s) = sent s"
  by (simp_all add: renderTabs_def Let_def)

lemma renderTabs_selectedIndex:
  "selectedIndex (renderTabs lc s) =
     (if \<not> shadowRoot s then selectedIndex s
      else max 0 (min (selectedIndex s) (int (length (getFilteredTabs lc s)) - 1)))"
  by (simp add: renderTabs_def Let_def getFilteredTabs_def)

lemma receiveTabs_fields [simp]:
  "currentTabs (receiveTabs s r) = slice0 (requestTabs r) (getMaxTabsForWidth s)"
  "currentTabId (receiveTabs s r) = req_currentTabId r"
  "switcherVisible (receiveTabs s r) = switcherVisible s"
  "shadowRoot (receiveTabs s r) = shadowRoot s"
  "selectedIndex (receiveTabs s r) = selectedIndex s"
  "searchQuery (receiveTabs s r) = searchQuery s"
  "ctrlPressed (receiveTabs s r) = ctrlPressed s"
  "metaPressed (receiveTabs s r) = metaPressed s"
  "shiftPressed (receiveTabs s r) = shiftPressed s"
  "altPressed (receiveTabs s r) = altPressed s"
  "currentSettings (receiveTabs s r) = currentSettings s"
  "sent (receiveTabs s r) = sent s"
  by (simp_all add: receiveTabs_def Let_def getMaxTabsForWidth_def)

lemma cycleSelection_fields [simp]:
  "switcherVisible (cycleSelection lc s d) = switcherVisible s"
  "shadowRoot (cycleSelection lc s d) = shadowRoot s"
  "currentTabs (cycleSelection lc s d) = currentTabs s"
  "currentTabId (cycleSelection lc s d) = currentTabId s"
  "searchQuery (cycleSelection lc s d) = searchQuery s"
  "ctrlPressed (cycleSelection lc s d) = ctrlPressed s"
  "metaPressed (cycleSelection lc s d) = metaPressed s"
  "shiftPressed (cycleSelection lc s d) = shiftPressed s"
  "altPressed (cycleSelection lc s d) = altPressed s"
  "currentSettings (cycleSelection lc s d) = currentSettings s"
  "sent (cycleSelection lc s d) = sent s"
  by (simp_all add: cycleSelection_def Let_def)

lemma showSwitcher_hidden:
  assumes "\<not> switcherVisible s"
  shows "switcherVisible (showSwitcher lc s stored)"
    and "currentTabs (showSwitcher lc s stored) = currentTabs s"
    and "searchQuery (showSwitcher lc s stored) = []"
    and "sent (showSwitcher lc s stored) = sent s @ [SwitcherShown]"
    and "selectedIndex (showSwitcher lc s stored) =
           max 0 (min (selectedIndex s) (int (length (currentTabs s)) - 1))"
  using assms
  by (simp_all add: showSwitcher_def loadSettings_def Let_def renderTabs_selectedIndex
      getFilteredTabs_def split: option.splits)

lemma initialSelection_fields [simp]:
  "switcherVisible (initialSelection s d) = switcherVisible s"
  "currentTabs (initialSelection s d) = currentTabs s"
  "sent (initialSelection s d) = sent s"
  "selectedIndex (initialSelection s d) =
     (if int (length (currentTabs s)) > 1
      then (if d = Forward then 1 else int (length (currentTabs s)) - 1) else 0)"
  by (simp_all add: initialSelection_def Let_def)

lemma hideSwitcher_fields [simp]:
  "switcherVisible (hideSwitcher s) = False"
  "currentTabs (hideSwitcher s) = currentTabs s"
  "selectedIndex (hideSwitcher s) = selectedIndex s"
  "ctrlPressed (hideSwitcher s) = (ctrlPressed s \<and> \<not> switcherVisible s)"
  "metaPressed (hideSwitcher s) = (metaPressed s \<and> \<not> switcherVisible s)"
  "shiftPressed (hideSwitcher s) = (shiftPressed s \<and> \<not> switcherVisible s)"
  "altPressed (hideSwitcher s) = (altPressed s \<and> \<not> switcherVisible s)"
  "sent (hideSwitcher s) = (if switcherVisible s then sent s @ [SwitcherHidden] else sent s)"
  by (simp_all add: hideSwitcher_def)

lemma releaseModifier_fields [simp]:
  "switcherVisible (releaseModifier s key) = switcherVisible s"
  "shadowRoot (releaseModifier s key) = shadowRoot s"
  "currentTabs (releaseModifier s key) = currentTabs s"
  "currentTabId (releaseModifier s key) = currentTabId s"
  "selectedIndex (releaseModifier s key) = selectedIndex s"
  "searchQuery (releaseModifier s key) = searchQuery s"
  "currentSettings (releaseModifier s key) = currentSettings s"
  "sent (releaseModifier s key) = sent s"
  "ctrlPressed (releaseModifier s key) = (ctrlPressed s \<and> key \<noteq> ''Control'')"
  "metaPressed (releaseModifier s key) = (metaPressed s \<and> key \<noteq> ''Meta'')"
  "shiftPressed (releaseModifier s key) = (shiftPressed s \<and> key \<noteq> ''Shift'')"
  "altPressed (releaseModifier s key) = (altPressed s \<and> key \<noteq> ''Alt'')"
  by (simp_all add: releaseModifier_def Let_def)

lemma pressModifier_fields [simp]:
  "switcherVisible (pressModifier s key) = switcherVisible s"
  "shadowRoot (pressModifier s key) = shadowRoot s"
  "currentTabs (pressModifier s key) = currentTabs s"
  "currentTabId (pressModifier s key) = currentTabId s"
  "selectedIndex (pressModifier s key) = selectedIndex s"
  "searchQuery (pressModifier s key) = searchQuery s"
  "currentSettings (pressModifier s key) = currentSettings s"
  "sent (pressModifier s key) = sent s"
  "ctrlPressed (pressModifier s key) = (ctrlPressed s \<or> key = ''Control'')"
  "metaPressed (pressModifier s key) = (metaPressed s \<or> key = ''Meta'')"
  "shiftPressed (pressModifier s key) = (shiftPressed s \<or> key = ''Shift'')"
  "altPressed (pressModifier s key) = (altPressed s \<or> key = ''Alt'')"
  by (simp_all add: pressModifier_def Let_def)

lemma releaseModifier_idem: "releaseModifier (releaseModifier s key) key = releaseModifier s key"
  by (simp add: releaseModifier_def Let_def)

lemma pressModifier_idem: "pressModifier (pressModifier s key) key = pressModifier s key"
  by (simp add: pressModifier_def Let_def)

lemma pressModifier_other:
  "key \<notin> {''Control'', ''Meta'', ''Shift'', ''Alt''} \<Longrightarrow> pressModifier s key = s"
  by (simp add: pressModifier_def Let_def)

lemma showSwitcher_flags [simp]:
  "ctrlPressed (showSwitcher lc s stored) = ctrlPressed s"
  "metaPressed (showSwitcher lc s stored) = metaPressed s"
  "shiftPressed (showSwitcher lc s stored) = shiftPressed s"
  "altPressed (showSwitcher lc s stored) = altPressed s"
  by (simp_all add: showSwitcher_def loadSettings_def Let_def split: option.splits)

lemma initialSelection_flags [simp]:
  "ctrlPressed (initialSelection s d) = ctrlPressed s"
  "metaPressed (initialSelection s d) = metaPressed s"
  "shiftPressed (initialSelection s d) = shiftPressed s"
  "altPressed (initialSelection s d) = altPressed s"
  by (simp_all add: initialSelection_def Let_def)

lemma onToggleSwitcher_flags [simp]:
  "ctrlPressed (onToggleSwitcher lc s r stored) = ctrlPressed s"
  "metaPressed (onToggleSwitcher lc s r stored) = metaPressed s"
  "shiftPressed (onToggleSwitcher lc s r stored) = shiftPressed s"
  "altPressed (onToggleSwitcher lc s r stored) = altPressed s"
  by (simp_all add: onToggleSwitcher_def Let_def)

lemma closeSelectedTab_fields [simp]:
  "switcherVisible (closeSelectedTab lc s) = switcherVisible s"
  "currentTabs (closeSelectedTab lc s) = currentTabs s"
  "selectedIndex (closeSelectedTab lc s) = selectedIndex s"
  "ctrlPressed (closeSelectedTab lc s) = ctrlPressed s"
  "metaPressed (closeSelectedTab lc s) = metaPressed s"
  "shiftPressed (closeSelectedTab lc s) = shiftPressed s"
  "altPressed (closeSelectedTab lc s) = altPressed s"
  by (simp_all add: closeSelectedTab_def Let_def split: option.splits)

lemma switchToTab_fields [simp]:
  "switcherVisible (switchToTab s i) = switcherVisible s"
  "currentTabs (switchToTab s i) = currentTabs s"
  "selectedIndex (switchToTab s i) = selectedIndex s"
  "ctrlPressed (switchToTab s i) = ctrlPressed s"
  "metaPressed (switchToTab s i) = metaPressed s"
  "shiftPressed (switchToTab s i) = shiftPressed s"
  "altPressed (switchToTab s i) = altPressed s"
  by (simp_all add: switchToTab_def)

lemma onBlur_flags [simp]:
  "\<not> ctrlPressed (onBlur s)" "\<not> metaPressed (onBlur s)"
  "\<not> shiftPressed (onBlur s)" "\<not> altPressed (onBlur s)"
  by (simp_all add: onBlur_def)

lemma closeTabKey_pressModifier [simp]: "closeTabKey lc (pressModifier s key) = closeTabKey lc s"
  by (simp add: closeTabKey_def hotkeysOrEmpty_def)

lemma length_slice0: "length (slice0 xs e) \<le> length xs"
  by (auto simp: slice0_def split: option.splits)

lemma currentTabs_onToggleSwitcher:
  "currentTabs (onToggleSwitcher lc s request stored) = slice0 (requestTabs request) (getMaxTabsForWidth s)"
proof (cases "switcherVisible s")
  case True
  then show ?thesis by (simp add: onToggleSwitcher_def Let_def)
next
  case False
  then have "\<not> switcherVisible (initialSelection (receiveTabs s request) (requestDirection request))"
    by simp
  then show ?thesis
    using False by (simp add: onToggleSwitcher_def Let_def showSwitcher_hidden(2))
qed

lemma length_getFilteredTabs: "length (getFilteredTabs lc s) \<le> length (currentTabs s)"
  by (simp add: getFilteredTabs_def Let_def)

lemma jsRem_ge0: "0 \<le> a \<Longrightarrow> 0 \<le> jsRem a b"
  by (cases "b = 0") (simp_all add: jsRem_def sgn_if)

lemma renderTabs_nonneg: "0 \<le> selectedIndex s \<Longrightarrow> 0 \<le> selectedIndex (renderTabs lc s)"
  by (simp add: renderTabs_selectedIndex)

lemma cycleSelection_nonneg:
  assumes "0 \<le> selectedIndex s"
  shows "0 \<le> selectedIndex (cycleSelection lc s d)"
proof (cases "getFilteredTabs lc s = []")
  case True
  with assms show ?thesis by (simp add: cycleSelection_def)
next
  case False
  then have "0 \<le> selectedIndex s - 1 + int (length (getFilteredTabs lc s))"
    using assms by (cases "getFilteredTabs lc s") simp_all
  with assms False show ?thesis
    by (simp add: cycleSelection_def Let_def jsRem_ge0 renderTabs_nonneg)
qed

lemma onToggleSwitcher_nonneg:
  "0 \<le> selectedIndex s \<Longrightarrow> 0 \<le> selectedIndex (onToggleSwitcher lc s request stored)"
  by (auto simp: onToggleSwitcher_def Let_def cycleSelection_nonneg showSwitcher_hidden(5))

text \<open>
  The selected index is never negative: it starts at 0 and no handler makes it negative.
\<close>

lemma step_selectedIndex_nonneg:
  assumes "0 \<le> selectedIndex s"
  shows "0 \<le> selectedIndex (step lc s ev)"
proof (cases ev)
  case (KeyDown key)
  with assms show ?thesis
    by (auto simp: Let_def handleGlobalKeydown_def cycleSelection_nonneg)
next
  case (KeyUp key)
  with assms show ?thesis
    by (auto simp: Let_def handleGlobalKeyup_def split: option.splits)
next
  case Blur
  with assms show ?thesis by (simp add: onBlur_def)
next
  case (ToggleSwitcher request stored)
  with assms show ?thesis by (simp add: onToggleSwitcher_nonneg)
next
  case SwitchToTabResponse
  with assms show ?thesis by (simp add: switchToTab_callback_def)
next
  case (CloseTabResponse tabId lastError)
  with assms show ?thesis
    by (auto simp: closeTab_callback_def Let_def renderTabs_selectedIndex)
next
  case (MouseEnter i)
  with assms show ?thesis by (auto simp: renderTabs_selectedIndex)
qed

lemma selectedIndex_nonneg_reachable: "0 \<le> selectedIndex (foldl (step lc) (initialState width) evs)"
proof (induction evs rule: rev_induct)
  case Nil
  then show ?case by (simp add: initialState_def)
next
  case (snoc ev evs)
  then show ?case by (simp add: step_selectedIndex_nonneg)
qed

section \<open>The MRU list under activations\<close>

lemma recordActivation_take:
  "recordActivation m t = take 100 (t # filter (\<lambda>i. i \<noteq> t) m)"
  by (simp add: recordActivation_def Let_def)

lemma take_filter_take:
  "distinct xs \<Longrightarrow> take n (filter (\<lambda>i. i \<noteq> t) (take (Suc n) xs)) = take n (filter (\<lambda>i. i \<noteq> t) xs)"
proof (induction xs arbitrary: n)
  case Nil
  then show ?case by simp
next
  case (Cons x xs)
  show ?case
  proof (cases "x = t")
    case True
    with Cons.prems have "t \<notin> set xs" by simp
    then have "filter (\<lambda>i. i \<noteq> t) xs = xs" "filter (\<lambda>i. i \<noteq> t) (take n xs) = take n xs"
      by (auto simp: filter_id_conv dest: in_set_takeD)
    with True show ?thesis by simp
  next
    case False
    with Cons show ?thesis by (cases n) simp_all
  qed
qed

lemma remdups_snoc:
  "remdups (xs @ [t]) = filter (\<lambda>i. i \<noteq> t) (remdups xs) @ [t]"
  by (induction xs) auto

lemma recency_snoc:
  "recency m (calls @ [t]) = t # filter (\<lambda>i. i \<noteq> t) (recency m calls)"
  by (simp add: recency_def remdups_snoc rev_filter conj_commute)

lemma distinct_recency: "distinct m \<Longrightarrow> distinct (recency m calls)"
  by (auto simp: recency_def)

lemma foldl_recordActivation:
  "distinct m \<Longrightarrow> foldl recordActivation m (calls @ [t]) = take 100 (recency m (calls @ [t]))"
proof (induction calls arbitrary: t rule: rev_induct)
  case Nil
  then show ?case by (simp add: recordActivation_take recency_def)
next
  case (snoc c calls)
  have "foldl recordActivation m ((calls @ [c]) @ [t]) =
        recordActivation (take 100 (recency m (calls @ [c]))) t"
    using snoc by simp
  also have "\<dots> = take 100 (t # filter (\<lambda>i. i \<noteq> t) (recency m (calls @ [c])))"
    using take_filter_take [of "recency m (calls @ [c])" 99 t] snoc.prems
    by (simp add: recordActivation_take distinct_recency)
  finally show ?case by (simp only: recency_snoc [symmetric])
qed

text \<open>
  Claim C2. After any non-empty sequence of activations from a duplicate-free MRU list, the list
  is duplicate-free, starts with the id activated last, has at most 100 entries, and is the
  first 100 entries of the recency order; each single update is a prefix of the untruncated
  list, so truncation only drops entries at the tail.
\<close>

theorem recordActivation_invariant:
  assumes "distinct m"
  shows "distinct (foldl recordActivation m (calls @ [t]))
       \<and> foldl recordActivation m (calls @ [t]) \<noteq> []
       \<and> hd (foldl recordActivation m (calls @ [t])) = t
       \<and> length (foldl recordActivation m (calls @ [t])) \<le> 100
       \<and> foldl recordActivation m (calls @ [t]) = take 100 (recency m (calls @ [t]))
       \<and> prefix (foldl recordActivation m (calls @ [t]))
            (t # filter (\<lambda>i. i \<noteq> t) (foldl recordActivation m calls))"
proof -
  let ?r = "foldl recordActivation m (calls @ [t])"
  have eq: "?r = take 100 (recency m (calls @ [t]))"
    using assms by (rule foldl_recordActivation)
  have d: "distinct ?r"
    unfolding eq using assms by (simp add: distinct_recency)
  have h: "?r \<noteq> [] \<and> hd ?r = t"
    unfolding eq by (simp add: recency_snoc)
  have l: "length ?r \<le> 100"
    unfolding eq by simp
  have p: "prefix ?r (t # filter (\<lambda>i. i \<noteq> t) (foldl recordActivation m calls))"
    by (simp add: recordActivation_take take_is_prefix del: take_Suc_Cons)
  from eq d h l p show ?thesis by blast
qed

theorem recordActivation_invariant_witness:
  "distinct [3, 1, 2 :: int]
   \<and> foldl recordActivation [3, 1, 2] ([1, 2] @ [1]) = [1, 2, 3]
   \<and> hd (foldl recordActivation [3, 1, 2] ([1, 2] @ [1])) = 1
   \<and> length (foldl recordActivation [3, 1, 2] ([1, 2] @ [1])) \<le> 100"
  using recordActivation_invariant [of "[3, 1, 2]" "[1, 2]" 1]
  by (simp add: recordActivation_def recency_def)

section \<open>Sorting the live tabs by MRU order\<close>

lemma tabMap_snoc: "tabMap (xs @ [x]) = (tabMap xs)(tab_id x \<mapsto> x)"
  by (simp add: tabMap_def)

lemma tabMap_Nil: "tabMap [] = Map.empty"
  by (simp add: tabMap_def)

lemma tabMap_None: "tabMap tabs i = None \<longleftrightarrow> i \<notin> tab_id ` set tabs"
  by (induction tabs rule: rev_induct) (auto simp: tabMap_snoc tabMap_Nil)

lemma tabMap_Some:
  "distinct (map tab_id tabs) \<Longrightarrow> t \<in> set tabs \<Longrightarrow> tabMap tabs (tab_id t) = Some t"
proof (induction tabs rule: rev_induct)
  case Nil
  then show ?case by simp
next
  case (snoc x xs)
  show ?case
  proof (cases "t = x")
    case True
    then show ?thesis by (simp add: tabMap_snoc)
  next
    case False
    with snoc.prems have "t \<in> set xs" "tab_id t \<noteq> tab_id x"
      by (auto simp: image_iff)
    with snoc show ?thesis by (simp add: tabMap_snoc)
  qed
qed

lemma filter_key_single:
  "distinct (map f xs) \<Longrightarrow> x \<in> set xs \<Longrightarrow> filter (\<lambda>y. f y = f x) xs = [x]"
  by (induction xs) (auto simp: filter_empty_conv image_iff)

lemma tabMap_filter:
  assumes "distinct (map tab_id tabs)"
  shows "(case tabMap tabs i of None \<Rightarrow> [] | Some t \<Rightarrow> [t]) = filter (\<lambda>t. tab_id t = i) tabs"
proof (cases "i \<in> tab_id ` set tabs")
  case True
  then obtain t where t: "t \<in> set tabs" "i = tab_id t" by auto
  with assms show ?thesis by (simp add: tabMap_Some filter_key_single)
next
  case False
  then have "tabMap tabs i = None" by (simp add: tabMap_None)
  moreover from False have "filter (\<lambda>t. tab_id t = i) tabs = []"
    by (auto simp: filter_empty_conv)
  ultimately show ?thesis by simp
qed

lemma addMruTabs_eq:
  "addMruTabs tm mru (acc, ids) =
     (acc @ concat (map (\<lambda>i. case tm i of None \<Rightarrow> [] | Some t \<Rightarrow> [t]) mru),
      ids \<union> (set mru \<inter> dom tm))"
  by (induction mru arbitrary: acc ids) (auto split: option.splits)

lemma addRemainingTabs_eq:
  "addRemainingTabs ids tabs acc = acc @ filter (\<lambda>t. tab_id t \<notin> ids) tabs"
  by (induction tabs arbitrary: acc) auto

lemma sortTabsByMRU_eq:
  assumes "distinct (map tab_id tabs)"
  shows "sortTabsByMRU mru tabs =
     concat (map (\<lambda>i. filter (\<lambda>t. tab_id t = i) tabs) mru) @ filter (\<lambda>t. tab_id t \<notin> set mru) tabs"
proof -
  have "filter (\<lambda>t. tab_id t \<notin> set mru \<inter> dom (tabMap tabs)) tabs = filter (\<lambda>t. tab_id t \<notin> set mru) tabs"
    by (rule filter_cong) (auto simp: dom_def tabMap_None)
  then show ?thesis
    using assms by (simp add: sortTabsByMRU_def addMruTabs_eq addRemainingTabs_eq tabMap_filter)
qed

lemma map_id_filter:
  "distinct (map tab_id tabs) \<Longrightarrow>
     map tab_id (filter (\<lambda>t. tab_id t = i) tabs) = (if i \<in> tab_id ` set tabs then [i] else [])"
  by (induction tabs) (auto simp: image_iff)

lemma mruPart_ids:
  "distinct (map tab_id tabs) \<Longrightarrow>
   map tab_id (concat (map (\<lambda>i. filter (\<lambda>t. tab_id t = i) tabs) mru)) = filter (\<lambda>i. i \<in> tab_id ` set tabs) mru"
  by (induction mru) (simp_all add: map_id_filter)

lemma mruPart_mset:
  "distinct mru \<Longrightarrow>
   mset (concat (map (\<lambda>i. filter (\<lambda>t. tab_id t = i) tabs) mru)) = mset (filter (\<lambda>t. tab_id t \<in> set mru) tabs)"
proof (induction mru)
  case Nil
  then show ?case by simp
next
  case (Cons i mru)
  have "mset (filter (\<lambda>t. tab_id t = i) tabs) + mset (filter (\<lambda>t. tab_id t \<in> set mru) tabs)
      = mset (filter (\<lambda>t. tab_id t = i \<or> tab_id t \<in> set mru) tabs)"
    using Cons.prems by (induction tabs) auto
  with Cons show ?case by simp
qed

text \<open>
  Claim C1. For live tabs (pairwise distinct ids, as the host guarantees) and a duplicate-free
  MRU list, \<^verbatim>\<open>sortTabsByMRU\<close> is a stable partition: first, for each MRU id in MRU order, the
  tab with that id (ids without a live tab contribute nothing), then the tabs whose id is not
  in the MRU list, in input order; the result is a permutation of the input, each tab once.
\<close>

theorem sortTabsByMRU_stable_partition:
  assumes "distinct (map tab_id tabs)" and "distinct mru"
  shows "sortTabsByMRU mru tabs =
           concat (map (\<lambda>i. filter (\<lambda>t. tab_id t = i) tabs) mru) @
           filter (\<lambda>t. tab_id t \<notin> set mru) tabs
       \<and> map tab_id (concat (map (\<lambda>i. filter (\<lambda>t. tab_id t = i) tabs) mru)) =
           filter (\<lambda>i. i \<in> tab_id ` set tabs) mru
       \<and> mset (sortTabsByMRU mru tabs) = mset tabs"
  using assms by (simp add: sortTabsByMRU_eq mruPart_ids mruPart_mset)

theorem sortTabsByMRU_stable_partition_witness:
  "distinct (map tab_id [mkTab 1 ''A'', mkTab 2 ''B'', mkTab 3 ''C'', mkTab 4 ''D''])
   \<and> distinct [3, 9, 1 :: int]
   \<and> sortTabsByMRU [3, 9, 1] [mkTab 1 ''A'', mkTab 2 ''B'', mkTab 3 ''C'', mkTab 4 ''D'']
       = [mkTab 3 ''C'', mkTab 1 ''A'', mkTab 2 ''B'', mkTab 4 ''D'']
   \<and> mset (sortTabsByMRU [3, 9, 1] [mkTab 1 ''A'', mkTab 2 ''B'', mkTab 3 ''C'', mkTab 4 ''D''])
       = mset [mkTab 1 ''A'', mkTab 2 ''B'', mkTab 3 ''C'', mkTab 4 ''D'']"
  using sortTabsByMRU_stable_partition
    [of "[mkTab 1 ''A'', mkTab 2 ''B'', mkTab 3 ''C'', mkTab 4 ''D'']" "[3, 9, 1]"]
  by (simp add: mkTab_def)

section \<open>The screenshot cache under puts\<close>

lemma delete_member:
  assumes "distinct (map fst c)" "p \<in> set c"
  shows "AList.delete (fst p) c = filter (\<lambda>q. q \<noteq> p) c"
proof -
  have "\<And>q. q \<in> set c \<Longrightarrow> (fst p \<noteq> fst q) = (q \<noteq> p)"
    using assms by (metis eq_key_imp_eq_value prod.collapse)
  then show ?thesis
    by (auto simp: AList.delete_eq case_prod_unfold intro!: filter_cong)
qed

lemma length_filter_neq:
  "distinct c \<Longrightarrow> p \<in> set c \<Longrightarrow> length (filter (\<lambda>q. q \<noteq> p) c) = length c - 1"
proof (induction c)
  case Nil
  then show ?case by simp
next
  case (Cons a c)
  show ?case
  proof (cases "a = p")
    case True
    with Cons.prems have "filter (\<lambda>q. q \<noteq> p) c = c"
      by (auto simp: filter_id_conv)
    with True show ?thesis by simp
  next
    case False
    with Cons have "length (filter (\<lambda>q. q \<noteq> p) c) = length c - 1" "c \<noteq> []"
      by auto
    with False show ?thesis by (cases c) auto
  qed
qed

lemma length_delete_member:
  assumes "distinct (map fst c)" "p \<in> set c"
  shows "length (AList.delete (fst p) c) = length c - 1"
  using assms by (simp add: delete_member length_filter_neq distinct_map)

lemma pruneLoop_eq:
  "distinct (map fst c) \<Longrightarrow> distinct es \<Longrightarrow> set es \<subseteq> set c \<Longrightarrow>
   pruneLoop c es = filter (\<lambda>p. p \<notin> set (take (length c - MAX_SCREENSHOT_CACHE_ITEMS) es)) c"
proof (induction es arbitrary: c)
  case Nil
  then show ?case by simp
next
  case (Cons p es)
  show ?case
  proof (cases "length c > MAX_SCREENSHOT_CACHE_ITEMS")
    case False
    then show ?thesis by simp
  next
    case True
    let ?c' = "AList.delete (fst p) c"
    from Cons.prems have pc: "p \<in> set c" by simp
    have c': "?c' = filter (\<lambda>q. q \<noteq> p) c"
      using Cons.prems pc by (simp add: delete_member)
    have d': "distinct (map fst ?c')"
      using Cons.prems by (simp add: AList.distinct_delete)
    have s': "set es \<subseteq> set ?c'"
      using Cons.prems unfolding c' by auto
    have l': "length ?c' - MAX_SCREENSHOT_CACHE_ITEMS = length c - MAX_SCREENSHOT_CACHE_ITEMS - 1"
      using Cons.prems pc by (simp add: length_delete_member)
    from True obtain n where n: "length c - MAX_SCREENSHOT_CACHE_ITEMS = Suc n"
      by (metis Suc_diff_Suc)
    have "pruneLoop c (p # es) = pruneLoop ?c' es"
      using True by simp
    also have "\<dots> = filter (\<lambda>q. q \<notin> set (take n es)) ?c'"
      using Cons.IH [OF d' _ s'] Cons.prems l' n by simp
    also have "\<dots> = filter (\<lambda>q. q \<notin> set (take (Suc n) (p # es))) c"
      unfolding c' by (simp add: conj_commute)
    finally show ?thesis by (simp only: n)
  qed
qed

lemma length_pruneLoop:
  "distinct (map fst c) \<Longrightarrow> distinct es \<Longrightarrow> set es \<subseteq> set c \<Longrightarrow>
   length (pruneLoop c es) = length c - min (length es) (length c - MAX_SCREENSHOT_CACHE_ITEMS)"
proof (induction es arbitrary: c)
  case Nil
  then show ?case by simp
next
  case (Cons p es)
  show ?case
  proof (cases "length c > MAX_SCREENSHOT_CACHE_ITEMS")
    case False
    then show ?thesis by simp
  next
    case True
    let ?c' = "AList.delete (fst p) c"
    from Cons.prems have pc: "p \<in> set c" by simp
    have c': "?c' = filter (\<lambda>q. q \<noteq> p) c"
      using Cons.prems pc by (simp add: delete_member)
    have d': "distinct (map fst ?c')"
      using Cons.prems by (simp add: AList.distinct_delete)
    have s': "set es \<subseteq> set ?c'"
      using Cons.prems unfolding c' by auto
    have l': "length ?c' = length c - 1"
      using Cons.prems pc by (simp add: length_delete_member)
    have "length (pruneLoop ?c' es) = length ?c' - min (length es) (length ?c' - MAX_SCREENSHOT_CACHE_ITEMS)"
      using Cons.IH [OF d' _ s'] Cons.prems by simp
    with True l' show ?thesis by (simp add: min_def) arith
  qed
qed

lemma pruneScreenshotCache_eq:
  assumes "distinct (map fst c)"
  shows "pruneScreenshotCache c =
     filter (\<lambda>p. p \<notin> set (take (length c - MAX_SCREENSHOT_CACHE_ITEMS) (sort_key timestampOrZero c))) c"
proof (cases "length c \<le> MAX_SCREENSHOT_CACHE_ITEMS")
  case True
  then show ?thesis by (simp add: pruneScreenshotCache_def)
next
  case False
  from assms have "distinct c" by (simp add: distinct_map)
  with assms False show ?thesis
    by (simp add: pruneScreenshotCache_def pruneLoop_eq)
qed

lemma length_pruneScreenshotCache:
  assumes "distinct (map fst c)"
  shows "length (pruneScreenshotCache c) = min (length c) MAX_SCREENSHOT_CACHE_ITEMS"
proof (cases "length c \<le> MAX_SCREENSHOT_CACHE_ITEMS")
  case True
  then show ?thesis by (simp add: pruneScreenshotCache_def)
next
  case False
  from assms have "distinct c" by (simp add: distinct_map)
  with assms False show ?thesis
    by (simp add: pruneScreenshotCache_def length_pruneLoop)
qed

lemma distinct_pruneScreenshotCache:
  "distinct (map fst c) \<Longrightarrow> distinct (map fst (pruneScreenshotCache c))"
  by (simp add: pruneScreenshotCache_eq distinct_map_filter)

lemma evicted_oldest:
  assumes "r \<in> set (take n (sort_key f c))" "k \<in> set c" "k \<notin> set (take n (sort_key f c))"
  shows "f r \<le> f k"
proof -
  have "sorted (map f (sort_key f c))"
    by simp
  then have "sorted (map f (take n (sort_key f c)) @ map f (drop n (sort_key f c)))"
    by (simp only: append_take_drop_id map_append [symmetric])
  then have "\<forall>x\<in>set (map f (take n (sort_key f c))). \<forall>y\<in>set (map f (drop n (sort_key f c))). x \<le> y"
    by (simp only: sorted_append) blast
  moreover have "k \<in> set (drop n (sort_key f c))"
    using assms(2,3) by (metis Un_iff append_take_drop_id set_append set_sort)
  ultimately show ?thesis
    using assms(1) by auto
qed

lemma update_fresh: "k \<notin> fst ` set c \<Longrightarrow> AList.update k v c = c @ [(k, v)]"
  by (induction c) auto

lemma hd_sort_key:
  assumes "xs \<noteq> []"
  shows "hd (sort_key f xs) \<in> set xs
       \<and> (\<forall>x\<in>set xs. f (hd (sort_key f xs)) \<le> f x)
       \<and> hd (sort_key f xs) = hd (filter (\<lambda>y. f y = f (hd (sort_key f xs))) xs)"
proof -
  from assms have "sort_key f xs \<noteq> []"
    by (metis length_0_conv length_sort)
  then obtain h rest where s: "sort_key f xs = h # rest"
    by (cases "sort_key f xs") auto
  have "sorted (map f (sort_key f xs))" by simp
  then have le: "\<forall>x\<in>set rest. f h \<le> f x"
    unfolding s by simp
  have mem: "set xs = insert h (set rest)"
    using s by (metis list.simps(15) set_sort)
  have "filter (\<lambda>y. f y = f h) xs = filter (\<lambda>y. f y = f h) (sort_key f xs)"
    by (simp only: sort_key_stable)
  also have "\<dots> = h # filter (\<lambda>y. f y = f h) rest"
    unfolding s by simp
  finally have "hd (filter (\<lambda>y. f y = f h) xs) = h" by simp
  with le mem show ?thesis unfolding s by auto
qed

lemma setScreenshot_at_cap:
  assumes d: "distinct (map fst c)"
      and l: "length c = 25"
      and fresh: "tabId \<notin> fst ` set c"
      and clock: "\<exists>p\<in>set c. timestampOrZero p \<le> now"
  shows "\<exists>p\<in>set c. (\<forall>q\<in>set c. timestampOrZero p \<le> timestampOrZero q)
           \<and> setScreenshot c now tabId dat u =
               filter (\<lambda>q. q \<noteq> p) c @ [(tabId, \<lparr>dataUrl = dat, timestamp = Some now, url = u\<rparr>)]"
proof -
  let ?new = "(tabId, \<lparr>dataUrl = dat, timestamp = Some now, url = u\<rparr>)"
  let ?c' = "c @ [?new]"
  let ?h = "hd (sort_key timestampOrZero ?c')"
  have tn: "timestampOrZero ?new = now" by (simp add: timestampOrZero_def)
  have d': "distinct (map fst ?c')" using d fresh by simp
  have hd: "?h \<in> set ?c'" "\<forall>x\<in>set ?c'. timestampOrZero ?h \<le> timestampOrZero x"
    "?h = hd (filter (\<lambda>y. timestampOrZero y = timestampOrZero ?h) ?c')"
    using hd_sort_key [of ?c' timestampOrZero] by simp_all
  from clock obtain p0 where p0: "p0 \<in> set c" "timestampOrZero p0 \<le> now" by auto
  have ne: "filter (\<lambda>y. timestampOrZero y = timestampOrZero ?h) c \<noteq> []"
  proof
    assume e: "filter (\<lambda>y. timestampOrZero y = timestampOrZero ?h) c = []"
    then have "?h \<notin> set c" by (auto simp: filter_empty_conv)
    with hd(1) have "?h = ?new" by auto
    then have "timestampOrZero ?h = now" using tn by simp
    moreover have "timestampOrZero ?h \<le> timestampOrZero p0" using hd(2) p0(1) by auto
    ultimately have "timestampOrZero p0 = timestampOrZero ?h" using p0(2) by simp
    with e p0(1) show False by (auto simp: filter_empty_conv)
  qed
  then have "?h = hd (filter (\<lambda>y. timestampOrZero y = timestampOrZero ?h) c)"
    using hd(3) by (metis (no_types, lifting) filter_append hd_append2)
  with ne have hc: "?h \<in> set c"
    by (metis (no_types, lifting) filter_is_subset hd_in_set subsetD)
  then have hn: "?h \<noteq> ?new" using fresh by (metis fst_conv image_eqI)
  have "sort_key timestampOrZero ?c' \<noteq> []"
    by (metis length_0_conv length_sort snoc_eq_iff_butlast)
  then have t1: "take (Suc 0) (sort_key timestampOrZero ?c') = [?h]"
    by (cases "sort_key timestampOrZero ?c'") auto
  have "setScreenshot c now tabId dat u = pruneScreenshotCache ?c'"
    using fresh by (simp add: setScreenshot_def update_fresh)
  also have "\<dots> = filter (\<lambda>q. q \<notin> set (take (Suc 0) (sort_key timestampOrZero ?c'))) ?c'"
    using d' l by (simp add: pruneScreenshotCache_eq MAX_SCREENSHOT_CACHE_ITEMS_def del: sort_key_simps)
  also have "\<dots> = filter (\<lambda>q. q \<noteq> ?h) c @ [?new]"
    unfolding t1 using hn by simp
  finally have "setScreenshot c now tabId dat u = filter (\<lambda>q. q \<noteq> ?h) c @ [?new]" .
  moreover have "\<forall>q\<in>set c. timestampOrZero ?h \<le> timestampOrZero q"
    using hd(2) by simp
  ultimately show ?thesis using hc by blast
qed

lemma length_update_member: "k \<in> fst ` set c \<Longrightarrow> length (AList.update k v c) = length c"
  by (induction c) auto

lemma setScreenshot_overwrite:
  assumes "tabId \<in> fst ` set c" "length c \<le> 25"
  shows "setScreenshot c now tabId dat u =
           AList.update tabId \<lparr>dataUrl = dat, timestamp = Some now, url = u\<rparr> c"
    and "length (setScreenshot c now tabId dat u) = length c"
    and "map fst (setScreenshot c now tabId dat u) = map fst c"
  using assms
  by (simp_all add: setScreenshot_def pruneScreenshotCache_def length_update_member
      AList.update_keys MAX_SCREENSHOT_CACHE_ITEMS_def)

lemma setScreenshot_at_cap_oldest:
  assumes d: "distinct (map fst c)"
      and l: "length c = 25"
      and fresh: "tabId \<notin> fst ` set c"
  shows "\<exists>p\<in>set (c @ [(tabId, \<lparr>dataUrl = dat, timestamp = Some now, url = u\<rparr>)]).
           (\<forall>q\<in>set (c @ [(tabId, \<lparr>dataUrl = dat, timestamp = Some now, url = u\<rparr>)]).
              timestampOrZero p \<le> timestampOrZero q)
         \<and> p = hd (filter (\<lambda>q. timestampOrZero q = timestampOrZero p)
                   (c @ [(tabId, \<lparr>dataUrl = dat, timestamp = Some now, url = u\<rparr>)]))
         \<and> setScreenshot c now tabId dat u =
             filter (\<lambda>q. q \<noteq> p) (c @ [(tabId, \<lparr>dataUrl = dat, timestamp = Some now, url = u\<rparr>)])"
proof -
  let ?new = "(tabId, \<lparr>dataUrl = dat, timestamp = Some now, url = u\<rparr>)"
  let ?c' = "c @ [?new]"
  let ?h = "hd (sort_key timestampOrZero ?c')"
  have d': "distinct (map fst ?c')" using d fresh by simp
  have hd: "?h \<in> set ?c'" "\<forall>x\<in>set ?c'. timestampOrZero ?h \<le> timestampOrZero x"
    "?h = hd (filter (\<lambda>y. timestampOrZero y = timestampOrZero ?h) ?c')"
    using hd_sort_key [of ?c' timestampOrZero] by simp_all
  have "sort_key timestampOrZero ?c' \<noteq> []"
    by (metis length_0_conv length_sort snoc_eq_iff_butlast)
  then have t1: "take (Suc 0) (sort_key timestampOrZero ?c') = [?h]"
    by (cases "sort_key timestampOrZero ?c'") auto
  have "setScreenshot c now tabId dat u = pruneScreenshotCache ?c'"
    using fresh by (simp add: setScreenshot_def update_fresh)
  also have "\<dots> = filter (\<lambda>q. q \<notin> set (take (Suc 0) (sort_key timestampOrZero ?c'))) ?c'"
    using d' l by (simp add: pruneScreenshotCache_eq MAX_SCREENSHOT_CACHE_ITEMS_def del: sort_key_simps)
  also have "\<dots> = filter (\<lambda>q. q \<noteq> ?h) ?c'"
    unfolding t1 by simp
  finally have "setScreenshot c now tabId dat u = filter (\<lambda>q. q \<noteq> ?h) ?c'" .
  with hd show ?thesis by blast
qed

lemma setScreenshot_clock_back:
  assumes d: "distinct (map fst c)"
      and l: "length c = 25"
      and fresh: "tabId \<notin> fst ` set c"
      and early: "\<forall>p\<in>set c. now < timestampOrZero p"
  shows "setScreenshot c now tabId dat u = c"
proof -
  let ?new = "(tabId, \<lparr>dataUrl = dat, timestamp = Some now, url = u\<rparr>)"
  from setScreenshot_at_cap_oldest [OF d l fresh, of dat now u]
  obtain p where p: "p \<in> set (c @ [?new])"
      "\<forall>q\<in>set (c @ [?new]). timestampOrZero p \<le> timestampOrZero q"
      "setScreenshot c now tabId dat u = filter (\<lambda>q. q \<noteq> p) (c @ [?new])"
    by blast
  have tn: "timestampOrZero ?new = now" by (simp add: timestampOrZero_def)
  from p(2) have "timestampOrZero p \<le> now" using tn by simp
  with early have "p \<notin> set c" by auto
  with p(1) have e: "p = ?new" by simp
  have "?new \<notin> set c" using fresh by (metis fst_conv image_eqI)
  then have "filter (\<lambda>q. q \<noteq> ?new) c = c"
    by (auto simp: filter_id_conv)
  with p(3) e show ?thesis by simp
qed

lemma distinct_setScreenshot:
  "distinct (map fst c) \<Longrightarrow> distinct (map fst (setScreenshot c now tabId d u))"
  by (simp add: setScreenshot_def distinct_pruneScreenshotCache AList.distinct_update)

lemma length_setScreenshot:
  "distinct (map fst c) \<Longrightarrow> length (setScreenshot c now tabId d u) \<le> 25"
  by (simp add: setScreenshot_def length_pruneScreenshotCache AList.distinct_update
      MAX_SCREENSHOT_CACHE_ITEMS_def)

lemma putAll_cap:
  "distinct (map fst c) \<Longrightarrow> length c \<le> 25 \<Longrightarrow>
   distinct (map fst (putAll c puts)) \<and> length (putAll c puts) \<le> 25"
proof (induction puts arbitrary: c)
  case Nil
  then show ?case by (simp add: putAll_def)
next
  case (Cons a puts)
  obtain now tabId d u where a: "a = (now, tabId, d, u)" by (cases a) auto
  have "putAll c (a # puts) = putAll (setScreenshot c now tabId d u) puts"
    by (simp add: putAll_def a)
  with Cons show ?case
    by (simp add: distinct_setScreenshot length_setScreenshot)
qed

text \<open>
  A put that removes none of the entries cached before it. The example cache holds 25 entries,
  tabs 1 to 25 with timestamps 101 to 125. A put for tab 2, which is cached, overwrites its
  entry: the same 25 tab ids remain, the oldest entry (tab 1) among them. A put for tab 77,
  which is not cached, at time 50, earlier than every cached timestamp, evicts the entry just
  inserted and leaves the cache as it was.
\<close>

theorem screenshot_cache_cap_counterexample:
  "length exampleCache = 25
   \<and> length (setScreenshot exampleCache 500 2 ''new'' None) = 25
   \<and> map fst (setScreenshot exampleCache 500 2 ''new'' None) = map fst exampleCache
   \<and> hd exampleCache \<in> set (setScreenshot exampleCache 500 2 ''new'' None)
   \<and> 77 \<notin> fst ` set exampleCache
   \<and> setScreenshot exampleCache 50 77 ''new'' None = exampleCache"
  by code_simp

text \<open>
  Claim C3. From a cache within the cap, any sequence of puts leaves at most 25 entries. A put
  leaves the cache after insertion minus the evicted entries, and every evicted entry is at
  least as old as every entry kept: eviction takes the globally smallest timestamps first,
  until the size is back at the cap. A put for a tab id that is already cached, into a cache
  within the cap, overwrites that entry and evicts nothing. A put for a tab id not yet cached
  into a cache of exactly 25 entries removes exactly one entry and leaves 25: the entry with
  the smallest timestamp among the 26 then present, the new one included, and the first of
  them in insertion order when several share that timestamp. When the new timestamp is not
  below every cached one, that entry is one of the original 25, of smallest timestamp among
  them, and the new entry stays; when it is below every cached one, the new entry itself is
  removed and the cache is unchanged.
\<close>

theorem screenshot_cache_cap:
  assumes "distinct (map fst c)"
  shows "(length c \<le> 25 \<longrightarrow> length (putAll c puts) \<le> 25)
       \<and> length (setScreenshot c now tabId dat u) \<le> 25
       \<and> setScreenshot c now tabId dat u =
           filter (\<lambda>p. p \<notin> set (evicted (AList.update tabId \<lparr>dataUrl = dat, timestamp = Some now, url = u\<rparr> c)))
             (AList.update tabId \<lparr>dataUrl = dat, timestamp = Some now, url = u\<rparr> c)
       \<and> (\<forall>r\<in>set (evicted (AList.update tabId \<lparr>dataUrl = dat, timestamp = Some now, url = u\<rparr> c)).
            \<forall>k\<in>set (setScreenshot c now tabId dat u). timestampOrZero r \<le> timestampOrZero k)
       \<and> (length c \<le> 25 \<and> tabId \<in> fst ` set c \<longrightarrow>
            setScreenshot c now tabId dat u =
              AList.update tabId \<lparr>dataUrl = dat, timestamp = Some now, url = u\<rparr> c
          \<and> length (setScreenshot c now tabId dat u) = length c
          \<and> map fst (setScreenshot c now tabId dat u) = map fst c)
       \<and> (length c = 25 \<and> tabId \<notin> fst ` set c \<longrightarrow>
            length (setScreenshot c now tabId dat u) = 25
          \<and> (\<exists>p\<in>set (c @ [(tabId, \<lparr>dataUrl = dat, timestamp = Some now, url = u\<rparr>)]).
                (\<forall>q\<in>set (c @ [(tabId, \<lparr>dataUrl = dat, timestamp = Some now, url = u\<rparr>)]).
                   timestampOrZero p \<le> timestampOrZero q)
              \<and> p = hd (filter (\<lambda>q. timestampOrZero q = timestampOrZero p)
                        (c @ [(tabId, \<lparr>dataUrl = dat, timestamp = Some now, url = u\<rparr>)]))
              \<and> setScreenshot c now tabId dat u =
                  filter (\<lambda>q. q \<noteq> p) (c @ [(tabId, \<lparr>dataUrl = dat, timestamp = Some now, url = u\<rparr>)])))
       \<and> (length c = 25 \<and> tabId \<notin> fst ` set c \<and> (\<exists>p\<in>set c. timestampOrZero p \<le> now) \<longrightarrow>
            length (setScreenshot c now tabId dat u) = 25
          \<and> (\<exists>p\<in>set c. (\<forall>q\<in>set c. timestampOrZero p \<le> timestampOrZero q)
                \<and> setScreenshot c now tabId dat u =
                    filter (\<lambda>q. q \<noteq> p) c @ [(tabId, \<lparr>dataUrl = dat, timestamp = Some now, url = u\<rparr>)]))
       \<and> (length c = 25 \<and> tabId \<notin> fst ` set c \<and> (\<forall>p\<in>set c. now < timestampOrZero p) \<longrightarrow>
            setScreenshot c now tabId dat u = c)"
proof -
  let ?new = "(tabId, \<lparr>dataUrl = dat, timestamp = Some now, url = u\<rparr>)"
  let ?c' = "AList.update tabId \<lparr>dataUrl = dat, timestamp = Some now, url = u\<rparr> c"
  have d': "distinct (map fst ?c')"
    using assms by (simp add: AList.distinct_update)
  have a: "length c \<le> 25 \<longrightarrow> length (putAll c puts) \<le> 25"
    using assms by (simp add: putAll_cap)
  have b: "length (setScreenshot c now tabId dat u) \<le> 25"
    using assms by (rule length_setScreenshot)
  have e: "setScreenshot c now tabId dat u = filter (\<lambda>p. p \<notin> set (evicted ?c')) ?c'"
    using d' by (simp add: setScreenshot_def evicted_def pruneScreenshotCache_eq del: sort_key_simps)
  have o: "\<forall>r\<in>set (evicted ?c'). \<forall>k\<in>set (setScreenshot c now tabId dat u).
             timestampOrZero r \<le> timestampOrZero k"
    unfolding e by (auto simp: evicted_def intro: evicted_oldest simp del: sort_key_simps)
  have w: "length c \<le> 25 \<and> tabId \<in> fst ` set c \<longrightarrow>
            setScreenshot c now tabId dat u = ?c'
          \<and> length (setScreenshot c now tabId dat u) = length c
          \<and> map fst (setScreenshot c now tabId dat u) = map fst c"
    using setScreenshot_overwrite [of tabId c now dat u] by blast
  have len: "length (setScreenshot c now tabId dat u) = 25"
    if h: "length c = 25" "tabId \<notin> fst ` set c"
  proof -
    from h have "length ?c' = 26"
      by (simp add: update_fresh)
    then show ?thesis
      using d' by (simp add: setScreenshot_def length_pruneScreenshotCache MAX_SCREENSHOT_CACHE_ITEMS_def)
  qed
  have g: "length c = 25 \<and> tabId \<notin> fst ` set c \<longrightarrow>
            length (setScreenshot c now tabId dat u) = 25
          \<and> (\<exists>p\<in>set (c @ [?new]).
                (\<forall>q\<in>set (c @ [?new]). timestampOrZero p \<le> timestampOrZero q)
              \<and> p = hd (filter (\<lambda>q. timestampOrZero q = timestampOrZero p) (c @ [?new]))
              \<and> setScreenshot c now tabId dat u = filter (\<lambda>q. q \<noteq> p) (c @ [?new]))"
    using len setScreenshot_at_cap_oldest [OF assms, of tabId dat now u] by blast
  have f: "length c = 25 \<and> tabId \<notin> fst ` set c \<and> (\<exists>p\<in>set c. timestampOrZero p \<le> now) \<longrightarrow>
            length (setScreenshot c now tabId dat u) = 25
          \<and> (\<exists>p\<in>set c. (\<forall>q\<in>set c. timestampOrZero p \<le> timestampOrZero q)
                \<and> setScreenshot c now tabId dat u = filter (\<lambda>q. q \<noteq> p) c @ [?new])"
    using len setScreenshot_at_cap [OF assms, of tabId now dat u] by blast
  have k: "length c = 25 \<and> tabId \<notin> fst ` set c \<and> (\<forall>p\<in>set c. now < timestampOrZero p) \<longrightarrow>
            setScreenshot c now tabId dat u = c"
    using setScreenshot_clock_back [OF assms, of tabId now dat u] by blast
  from a b e o w g f k show ?thesis by (intro conjI)
qed

theorem screenshot_cache_cap_witness:
  "distinct (map fst exampleCache)
   \<and> length exampleCache = 25
   \<and> 77 \<notin> fst ` set exampleCache
   \<and> length (putAll exampleCache [(500, 77, ''new'', None), (501, 78, ''new'', None)]) \<le> 25
   \<and> length (setScreenshot exampleCache 500 77 ''new'' None) = 25
   \<and> setScreenshot exampleCache 500 77 ''new'' None =
       tl exampleCache @ [(77, \<lparr>dataUrl = ''new'', timestamp = Some 500, url = None\<rparr>)]
   \<and> setScreenshot exampleCache 50 77 ''new'' None = exampleCache
   \<and> 2 \<in> fst ` set exampleCache
   \<and> map fst (setScreenshot exampleCache 500 2 ''new'' None) = map fst exampleCache"
proof -
  have d: "distinct (map fst exampleCache)"
    by code_simp
  have l: "length exampleCache = 25" "length exampleCache \<le> 25"
    by code_simp+
  have n: "77 \<notin> fst ` set exampleCache" "2 \<in> fst ` set exampleCache"
    by code_simp+
  have c: "\<exists>p\<in>set exampleCache. timestampOrZero p \<le> 500"
    "\<forall>p\<in>set exampleCache. 50 < timestampOrZero p"
    by code_simp+
  note t = screenshot_cache_cap [OF d, where puts = "[(500, 77, ''new'', None), (501, 78, ''new'', None)]"
      and now = 500 and tabId = 77 and dat = "''new''" and u = None]
  have v: "setScreenshot exampleCache 500 77 ''new'' None =
       tl exampleCache @ [(77, \<lparr>dataUrl = ''new'', timestamp = Some 500, url = None\<rparr>)]"
    by code_simp
  from t l have p: "length (putAll exampleCache [(500, 77, ''new'', None), (501, 78, ''new'', None)]) \<le> 25"
    by blast
  from t l n c have q: "length (setScreenshot exampleCache 500 77 ''new'' None) = 25"
    by blast
  from screenshot_cache_cap [OF d, where now = 50 and tabId = 77 and dat = "''new''" and u = None] l n c
  have r: "setScreenshot exampleCache 50 77 ''new'' None = exampleCache"
    by blast
  from screenshot_cache_cap [OF d, where now = 500 and tabId = 2 and dat = "''new''" and u = None] l n
  have o: "map fst (setScreenshot exampleCache 500 2 ''new'' None) = map fst exampleCache"
    by blast
  from d l(1) n(1) p q v r n(2) o show ?thesis by (intro conjI)
qed

section \<open>Looking a screenshot up\<close>

lemma urlScan_find:
  "\<forall>p\<in>set c. dataUrl (snd p) \<noteq> [] \<Longrightarrow>
   urlScan c s = map_option (\<lambda>p. dataUrl (snd p)) (find (\<lambda>p. url (snd p) = Some s) c)"
  by (induction c s rule: urlScan.induct) auto

lemma set_pruneLoop: "set (pruneLoop c es) \<subseteq> set c"
proof (induction es arbitrary: c)
  case Nil
  then show ?case by simp
next
  case (Cons p es)
  have "set (AList.delete (fst p) c) \<subseteq> set c"
    by (auto simp: AList.delete_eq)
  with Cons [of "AList.delete (fst p) c"] show ?case by auto
qed

text \<open>
  Every cached entry holds an image (a non-empty data URL): a put of an image keeps it so.
\<close>

lemma setScreenshot_images:
  assumes "\<forall>p\<in>set c. dataUrl (snd p) \<noteq> []" "d \<noteq> []"
  shows "\<forall>p\<in>set (setScreenshot c now tabId d u). dataUrl (snd p) \<noteq> []"
proof -
  let ?c' = "AList.update tabId \<lparr>dataUrl = d, timestamp = Some now, url = u\<rparr> c"
  have "set ?c' \<subseteq> insert (tabId, \<lparr>dataUrl = d, timestamp = Some now, url = u\<rparr>) (set c)"
    by (induction c) auto
  moreover have "set (setScreenshot c now tabId d u) \<subseteq> set ?c'"
    using set_pruneLoop [of ?c'] by (auto simp: setScreenshot_def pruneScreenshotCache_def)
  ultimately show ?thesis using assms by fastforce
qed

text \<open>
  Claim C4. In a cache whose entries all hold an image (the loader and every put of an image
  keep it so), \<^verbatim>\<open>getScreenshot\<close> returns the image of the entry keyed by the tab id
  whenever there is one, whatever the other entries store; with no such entry and a URL given
  (a non-empty string), it returns the image of the first entry storing that URL; and
  otherwise it returns no image.
\<close>

theorem getScreenshot_lookup:
  assumes "\<forall>p\<in>set c. dataUrl (snd p) \<noteq> []"
  shows "(\<forall>e. map_of c tabId = Some e \<longrightarrow> getScreenshot c tabId u = Some (dataUrl e))
       \<and> (map_of c tabId = None \<longrightarrow>
            getScreenshot c tabId u =
              (case u of
                 None \<Rightarrow> None
               | Some s \<Rightarrow>
                   if s = [] then None
                   else map_option (\<lambda>p. dataUrl (snd p)) (find (\<lambda>p. url (snd p) = Some s) c)))"
proof (intro conjI allI impI)
  fix e
  assume e: "map_of c tabId = Some e"
  then have "(tabId, e) \<in> set c" by (rule map_of_SomeD)
  with assms have "dataUrl e \<noteq> []" by force
  with e show "getScreenshot c tabId u = Some (dataUrl e)"
    by (simp add: getScreenshot_def)
next
  assume "map_of c tabId = None"
  then show "getScreenshot c tabId u =
              (case u of
                 None \<Rightarrow> None
               | Some s \<Rightarrow>
                   if s = [] then None
                   else map_option (\<lambda>p. dataUrl (snd p)) (find (\<lambda>p. url (snd p) = Some s) c))"
    using assms by (simp add: getScreenshot_def urlFallback_def urlScan_find split: option.splits)
qed

theorem getScreenshot_lookup_witness:
  "getScreenshot twoEntryCache 2 (Some ''https://a.example/'') = Some ''img2''
   \<and> getScreenshot twoEntryCache 9 (Some ''https://a.example/'') = Some ''img1''
   \<and> getScreenshot twoEntryCache 9 (Some ''https://b.example/'') = None
   \<and> getScreenshot twoEntryCache 9 None = None"
proof -
  have inv: "\<forall>p\<in>set twoEntryCache. dataUrl (snd p) \<noteq> []"
    by (simp add: twoEntryCache_def)
  have m2: "map_of twoEntryCache 2 = Some \<lparr>dataUrl = ''img2'', timestamp = Some 20, url = Some ''https://a.example/''\<rparr>"
    and m9: "map_of twoEntryCache 9 = None"
    by (simp_all add: twoEntryCache_def)
  from getScreenshot_lookup [OF inv, of 2 "Some ''https://a.example/''"] m2
  have a: "getScreenshot twoEntryCache 2 (Some ''https://a.example/'') = Some ''img2''"
    by simp
  from getScreenshot_lookup [OF inv, of 9 "Some ''https://a.example/''"] m9
  have b: "getScreenshot twoEntryCache 9 (Some ''https://a.example/'') = Some ''img1''"
    by (simp add: twoEntryCache_def)
  from getScreenshot_lookup [OF inv, of 9 "Some ''https://b.example/''"] m9
  have c: "getScreenshot twoEntryCache 9 (Some ''https://b.example/'') = None"
    by (simp add: twoEntryCache_def)
  from getScreenshot_lookup [OF inv, of 9 None] m9
  have d: "getScreenshot twoEntryCache 9 None = None"
    by simp
  from a b c d show ?thesis by (intro conjI)
qed

section \<open>Selection under toggle requests\<close>

lemma cycleSelection_selectedIndex:
  assumes "0 \<le> selectedIndex s" "getFilteredTabs lc s \<noteq> []"
  shows "selectedIndex (cycleSelection lc s d) =
          (if d = Forward then (selectedIndex s + 1) mod int (length (getFilteredTabs lc s))
           else (selectedIndex s - 1) mod int (length (getFilteredTabs lc s)))"
proof -
  let ?n = "int (length (getFilteredTabs lc s))"
  have n: "0 < ?n" using assms(2) by simp
  have g: "getFilteredTabs lc (s\<lparr>selectedIndex := i\<rparr>) = getFilteredTabs lc s" for i
    by (rule getFilteredTabs_cong) simp_all
  have r: "selectedIndex (renderTabs lc (s\<lparr>selectedIndex := i mod ?n\<rparr>)) = i mod ?n" for i
    using n pos_mod_sign [of ?n i] pos_mod_bound [of ?n i]
    by (simp add: renderTabs_selectedIndex g del: pos_mod_sign pos_mod_bound)
  show ?thesis
    using assms(1) n r [of "selectedIndex s + 1"] r [of "selectedIndex s - 1"]
    by (simp add: cycleSelection_def Let_def jsRem_nonneg jsRem_pred)
qed

text \<open>
  Claim C5. A toggle request while the switcher is hidden shows it on the capacity-truncated tab
  list, with index 1 selected when the list has more than one tab and the direction is forward,
  the last index when it has more than one tab and the direction is backward, and index 0
  otherwise. A toggle request while the switcher is visible and the filtered list is not empty
  moves the selection (which no handler ever makes negative) by one step forward or backward
  modulo the number of filtered tabs.
\<close>

theorem toggleSwitcher_selection:
  "(\<not> switcherVisible s \<longrightarrow>
      switcherVisible (onToggleSwitcher lc s request stored)
    \<and> currentTabs (onToggleSwitcher lc s request stored) =
        slice0 (requestTabs request) (getMaxTabsForWidth s)
    \<and> selectedIndex (onToggleSwitcher lc s request stored) =
        (if int (length (slice0 (requestTabs request) (getMaxTabsForWidth s))) > 1
         then (if requestDirection request = Forward then 1
               else int (length (slice0 (requestTabs request) (getMaxTabsForWidth s))) - 1)
         else 0))
   \<and> (switcherVisible s \<and> 0 \<le> selectedIndex s \<and> getFilteredTabs lc (receiveTabs s request) \<noteq> [] \<longrightarrow>
      getFilteredTabs lc (onToggleSwitcher lc s request stored) = getFilteredTabs lc (receiveTabs s request)
    \<and> selectedIndex (onToggleSwitcher lc s request stored) =
        (if requestDirection request = Forward
         then (selectedIndex s + 1) mod int (length (getFilteredTabs lc (receiveTabs s request)))
         else (selectedIndex s - 1) mod int (length (getFilteredTabs lc (receiveTabs s request)))))"
proof (intro conjI impI)
  assume h: "\<not> switcherVisible s"
  let ?t = "initialSelection (receiveTabs s request) (requestDirection request)"
  have e: "onToggleSwitcher lc s request stored = showSwitcher lc ?t stored"
    using h by (simp add: onToggleSwitcher_def Let_def)
  have v: "\<not> switcherVisible ?t" using h by simp
  show "switcherVisible (onToggleSwitcher lc s request stored)"
    unfolding e using v by (rule showSwitcher_hidden)
  show "currentTabs (onToggleSwitcher lc s request stored) =
        slice0 (requestTabs request) (getMaxTabsForWidth s)"
    unfolding e by (simp add: showSwitcher_hidden(2) [OF v])
  show "selectedIndex (onToggleSwitcher lc s request stored) =
        (if int (length (slice0 (requestTabs request) (getMaxTabsForWidth s))) > 1
         then (if requestDirection request = Forward then 1
               else int (length (slice0 (requestTabs request) (getMaxTabsForWidth s))) - 1)
         else 0)"
    unfolding e by (simp add: showSwitcher_hidden(5) [OF v])
next
  assume h: "switcherVisible s \<and> 0 \<le> selectedIndex s \<and> getFilteredTabs lc (receiveTabs s request) \<noteq> []"
  let ?t = "receiveTabs s request"
  have e: "onToggleSwitcher lc s request stored = cycleSelection lc ?t (requestDirection request)"
    using h by (simp add: onToggleSwitcher_def Let_def)
  show "getFilteredTabs lc (onToggleSwitcher lc s request stored) = getFilteredTabs lc ?t"
    unfolding e by (rule getFilteredTabs_cong) simp_all
  show "selectedIndex (onToggleSwitcher lc s request stored) =
        (if requestDirection request = Forward
         then (selectedIndex s + 1) mod int (length (getFilteredTabs lc ?t))
         else (selectedIndex s - 1) mod int (length (getFilteredTabs lc ?t)))"
    unfolding e using h by (simp add: cycleSelection_selectedIndex)
qed

lemma shownOnce_eq:
  "shownOnce = (initialState 1920)\<lparr>switcherVisible := True, shadowRoot := True,
     currentTabs := [mkTab 1 ''A'', mkTab 2 ''B'', mkTab 3 ''C''], currentTabId := Some 1,
     selectedIndex := 1, sent := [SwitcherShown]\<rparr>"
  by (simp add: shownOnce_def onToggleSwitcher_def receiveTabs_def requestTabs_def
      requestDirection_def exampleRequest_def initialState_def getMaxTabsForWidth_def slice0_def
      initialSelection_def showSwitcher_def loadSettings_def renderTabs_def getFilteredTabs_def
      Let_def)

theorem toggleSwitcher_selection_witness:
  "\<not> switcherVisible (initialState 1920)
   \<and> selectedIndex (onToggleSwitcher asciiToLowerCase (initialState 1920) exampleRequest None) = 1
   \<and> switcherVisible shownOnce
   \<and> 0 \<le> selectedIndex shownOnce
   \<and> getFilteredTabs asciiToLowerCase (receiveTabs shownOnce exampleRequest) = [mkTab 1 ''A'', mkTab 2 ''B'', mkTab 3 ''C'']
   \<and> selectedIndex (onToggleSwitcher asciiToLowerCase shownOnce exampleRequest None) = 2"
proof -
  have h: "\<not> switcherVisible (initialState 1920)"
    by (simp add: initialState_def)
  have c: "slice0 (requestTabs exampleRequest) (getMaxTabsForWidth (initialState 1920)) =
           [mkTab 1 ''A'', mkTab 2 ''B'', mkTab 3 ''C'']"
    by (simp add: requestTabs_def exampleRequest_def getMaxTabsForWidth_def initialState_def slice0_def)
  have d: "requestDirection exampleRequest = Forward"
    by (simp add: requestDirection_def exampleRequest_def)
  from toggleSwitcher_selection [where s = "initialState 1920" and lc = asciiToLowerCase
      and request = exampleRequest and stored = None] h
  have a: "selectedIndex (onToggleSwitcher asciiToLowerCase (initialState 1920) exampleRequest None) = 1"
    by (simp add: c d)
  have v: "switcherVisible shownOnce" and i: "selectedIndex shownOnce = 1"
    by (simp_all add: shownOnce_eq)
  have f: "getFilteredTabs asciiToLowerCase (receiveTabs shownOnce exampleRequest) = [mkTab 1 ''A'', mkTab 2 ''B'', mkTab 3 ''C'']"
    by (simp add: shownOnce_eq getFilteredTabs_def initialState_def requestTabs_def
        exampleRequest_def getMaxTabsForWidth_def slice0_def)
  from toggleSwitcher_selection [where s = shownOnce and lc = asciiToLowerCase
      and request = exampleRequest and stored = None] v i f d
  have b: "selectedIndex (onToggleSwitcher asciiToLowerCase shownOnce exampleRequest None) = 2"
    by simp
  from h a v i f b show ?thesis by simp
qed

section \<open>Modifier keys, commit and teardown\<close>

lemma step_KeyUp:
  "step lc s (KeyUp key) =
     (if switcherVisible s then handleGlobalKeyup lc (releaseModifier s key) key
      else releaseModifier s key)"
  by (simp add: Let_def)

lemma releaseModifier_other:
  "key \<notin> {''Control'', ''Meta'', ''Alt'', ''Shift''} \<Longrightarrow> releaseModifier s key = s"
  by (simp add: releaseModifier_def Let_def)

lemma handleGlobalKeyup_visible:
  assumes "switcherVisible s"
  shows "handleGlobalKeyup lc (releaseModifier s key) key =
     (if key \<in> {''Control'', ''Meta'', ''Alt'', ''Shift''}
         \<and> \<not> ctrlPressed (releaseModifier s key) \<and> \<not> metaPressed (releaseModifier s key)
         \<and> \<not> altPressed (releaseModifier s key) \<and> \<not> shiftPressed (releaseModifier s key)
      then (case at (getFilteredTabs lc s) (selectedIndex s) of
              Some t \<Rightarrow> switchToTab (releaseModifier s key) (tab_id t)
            | None \<Rightarrow> releaseModifier s key)
      else releaseModifier s key)"
proof -
  have g: "getFilteredTabs lc (releaseModifier s key) = getFilteredTabs lc s"
    by (rule getFilteredTabs_cong) simp_all
  show ?thesis
    unfolding handleGlobalKeyup_def releaseModifier_idem Let_def g
    using assms by auto
qed

text \<open>
  Claim C6. A key-up while the switcher is visible. If the released key is a tracked modifier,
  the release leaves all four flags false and the filtered list has a tab at the selected
  index, then the state records the release and exactly one \<^verbatim>\<open>switchToTab\<close> request with that
  tab's id is sent, and the callback of the request tears the switcher down. If a flag is
  still true after the release, whatever the key, the state only records the release and
  nothing is sent. A key that is no tracked modifier changes nothing at all.
\<close>

theorem keyup_commit:
  assumes "switcherVisible s"
  shows "(key \<in> {''Control'', ''Meta'', ''Alt'', ''Shift''}
           \<and> \<not> ctrlPressed (releaseModifier s key) \<and> \<not> metaPressed (releaseModifier s key)
           \<and> \<not> altPressed (releaseModifier s key) \<and> \<not> shiftPressed (releaseModifier s key) \<longrightarrow>
            (\<forall>t. at (getFilteredTabs lc s) (selectedIndex s) = Some t \<longrightarrow>
               step lc s (KeyUp key) =
                 (releaseModifier s key)\<lparr>sent := sent s @ [SwitchToTab (tab_id t)]\<rparr>
             \<and> sent (step lc s (KeyUp key)) = sent s @ [SwitchToTab (tab_id t)]
             \<and> \<not> switcherVisible (step lc (step lc s (KeyUp key)) SwitchToTabResponse)
             \<and> sent (step lc (step lc s (KeyUp key)) SwitchToTabResponse) =
                 sent s @ [SwitchToTab (tab_id t), SwitcherHidden])
          \<and> (at (getFilteredTabs lc s) (selectedIndex s) = None \<longrightarrow>
               step lc s (KeyUp key) = releaseModifier s key))
       \<and> (ctrlPressed (releaseModifier s key) \<or> metaPressed (releaseModifier s key)
           \<or> altPressed (releaseModifier s key) \<or> shiftPressed (releaseModifier s key) \<longrightarrow>
            step lc s (KeyUp key) = releaseModifier s key \<and> sent (step lc s (KeyUp key)) = sent s)
       \<and> (key \<notin> {''Control'', ''Meta'', ''Alt'', ''Shift''} \<longrightarrow>
            step lc s (KeyUp key) = s)"
proof -
  have e: "step lc s (KeyUp key) = handleGlobalKeyup lc (releaseModifier s key) key"
    using assms by (simp add: step_KeyUp)
  have a: "key \<in> {''Control'', ''Meta'', ''Alt'', ''Shift''}
           \<and> \<not> ctrlPressed (releaseModifier s key) \<and> \<not> metaPressed (releaseModifier s key)
           \<and> \<not> altPressed (releaseModifier s key) \<and> \<not> shiftPressed (releaseModifier s key) \<longrightarrow>
            (\<forall>t. at (getFilteredTabs lc s) (selectedIndex s) = Some t \<longrightarrow>
               step lc s (KeyUp key) =
                 (releaseModifier s key)\<lparr>sent := sent s @ [SwitchToTab (tab_id t)]\<rparr>
             \<and> sent (step lc s (KeyUp key)) = sent s @ [SwitchToTab (tab_id t)]
             \<and> \<not> switcherVisible (step lc (step lc s (KeyUp key)) SwitchToTabResponse)
             \<and> sent (step lc (step lc s (KeyUp key)) SwitchToTabResponse) =
                 sent s @ [SwitchToTab (tab_id t), SwitcherHidden])
          \<and> (at (getFilteredTabs lc s) (selectedIndex s) = None \<longrightarrow>
               step lc s (KeyUp key) = releaseModifier s key)"
    unfolding e handleGlobalKeyup_visible [OF assms]
    using assms by (auto simp: switchToTab_def switchToTab_callback_def)
  have b: "ctrlPressed (releaseModifier s key) \<or> metaPressed (releaseModifier s key)
           \<or> altPressed (releaseModifier s key) \<or> shiftPressed (releaseModifier s key) \<longrightarrow>
            step lc s (KeyUp key) = releaseModifier s key \<and> sent (step lc s (KeyUp key)) = sent s"
    unfolding e handleGlobalKeyup_visible [OF assms] by auto
  have c: "key \<notin> {''Control'', ''Meta'', ''Alt'', ''Shift''} \<longrightarrow> step lc s (KeyUp key) = s"
    unfolding e handleGlobalKeyup_visible [OF assms] by (auto simp: releaseModifier_other)
  from a b c show ?thesis by (intro conjI)
qed

lemma heldTwice_eq:
  "heldTwice = (initialState 1920)\<lparr>switcherVisible := True, shadowRoot := True,
     currentTabs := [mkTab 1 ''A'', mkTab 2 ''B'', mkTab 3 ''C''], currentTabId := Some 1,
     selectedIndex := 2, altPressed := True, sent := [SwitcherShown]\<rparr>"
  by (simp add: heldTwice_def onToggleSwitcher_def receiveTabs_def requestTabs_def
      requestDirection_def exampleRequest_def initialState_def getMaxTabsForWidth_def slice0_def
      initialSelection_def showSwitcher_def loadSettings_def renderTabs_def getFilteredTabs_def
      cycleSelection_def jsRem_def pressModifier_def Let_def)

theorem keyup_commit_witness:
  "switcherVisible heldTwice
   \<and> at (getFilteredTabs asciiToLowerCase heldTwice) (selectedIndex heldTwice) = Some (mkTab 3 ''C'')
   \<and> sent (step asciiToLowerCase heldTwice (KeyUp ''Alt'')) = [SwitcherShown, SwitchToTab 3]
   \<and> \<not> switcherVisible
         (step asciiToLowerCase (step asciiToLowerCase heldTwice (KeyUp ''Alt'')) SwitchToTabResponse)
   \<and> sent (step asciiToLowerCase heldTwice (KeyUp ''Shift'')) = [SwitcherShown]
   \<and> step asciiToLowerCase heldTwice (KeyUp ''a'') = heldTwice
   \<and> sent (step asciiToLowerCase heldTwice (KeyUp ''a'')) = [SwitcherShown]"
proof -
  have v: "switcherVisible heldTwice"
    by (simp add: heldTwice_eq)
  have t: "at (getFilteredTabs asciiToLowerCase heldTwice) (selectedIndex heldTwice) = Some (mkTab 3 ''C'')"
    by (simp add: heldTwice_eq getFilteredTabs_def at_def initialState_def)
  have f: "\<not> ctrlPressed (releaseModifier heldTwice ''Alt'')" "\<not> metaPressed (releaseModifier heldTwice ''Alt'')"
    "\<not> altPressed (releaseModifier heldTwice ''Alt'')" "\<not> shiftPressed (releaseModifier heldTwice ''Alt'')"
    "altPressed (releaseModifier heldTwice ''Shift'')" "altPressed (releaseModifier heldTwice ''a'')"
    by (simp_all add: heldTwice_eq initialState_def)
  have m: "tab_id (mkTab 3 ''C'') = 3" "sent heldTwice = [SwitcherShown]"
    by (simp_all add: mkTab_def heldTwice_eq)
  have k: "''Alt'' \<in> {''Control'', ''Meta'', ''Alt'', ''Shift''}"
    "''a'' \<notin> {''Control'', ''Meta'', ''Alt'', ''Shift''}"
    by simp_all
  from keyup_commit [OF v, where key = "''Alt''" and lc = asciiToLowerCase] k(1) t f(1-4)
  have a0: "sent (step asciiToLowerCase heldTwice (KeyUp ''Alt'')) =
      sent heldTwice @ [SwitchToTab (tab_id (mkTab 3 ''C''))]"
    "\<not> switcherVisible
       (step asciiToLowerCase (step asciiToLowerCase heldTwice (KeyUp ''Alt'')) SwitchToTabResponse)"
    by blast+
  from a0(1) have a1: "sent (step asciiToLowerCase heldTwice (KeyUp ''Alt'')) = [SwitcherShown, SwitchToTab 3]"
    by (simp only: m append.simps)
  note a = a1 a0(2)
  from keyup_commit [OF v, where key = "''Shift''" and lc = asciiToLowerCase] f(5)
  have "sent (step asciiToLowerCase heldTwice (KeyUp ''Shift'')) = sent heldTwice"
    by blast
  then have b: "sent (step asciiToLowerCase heldTwice (KeyUp ''Shift'')) = [SwitcherShown]"
    by (simp only: m)
  from keyup_commit [OF v, where key = "''a''" and lc = asciiToLowerCase] k(2)
  have c: "step asciiToLowerCase heldTwice (KeyUp ''a'') = heldTwice"
    by blast
  then have d: "sent (step asciiToLowerCase heldTwice (KeyUp ''a'')) = [SwitcherShown]"
    by (simp add: m)
  from v t a b c d show ?thesis by (intro conjI)
qed

lemma handleGlobalKeydown_keeps:
  "keeps ctrlPressed s (handleGlobalKeydown lc s key)"
  "keeps metaPressed s (handleGlobalKeydown lc s key)"
  "keeps shiftPressed s (handleGlobalKeydown lc s key)"
  "keeps altPressed s (handleGlobalKeydown lc s key)"
  by (simp_all add: keeps_def handleGlobalKeydown_def Let_def)

lemma handleGlobalKeyup_flags:
  "ctrlPressed (handleGlobalKeyup lc s key) = (ctrlPressed s \<and> key \<noteq> ''Control'')"
  "metaPressed (handleGlobalKeyup lc s key) = (metaPressed s \<and> key \<noteq> ''Meta'')"
  "shiftPressed (handleGlobalKeyup lc s key) = (shiftPressed s \<and> key \<noteq> ''Shift'')"
  "altPressed (handleGlobalKeyup lc s key) = (altPressed s \<and> key \<noteq> ''Alt'')"
  by (simp_all add: handleGlobalKeyup_def Let_def split: option.splits)

lemma closeTab_callback_keeps:
  "keeps ctrlPressed s (closeTab_callback lc s tabId lastError)"
  "keeps metaPressed s (closeTab_callback lc s tabId lastError)"
  "keeps shiftPressed s (closeTab_callback lc s tabId lastError)"
  "keeps altPressed s (closeTab_callback lc s tabId lastError)"
  by (simp_all add: keeps_def closeTab_callback_def Let_def)

lemma step_keeps:
  "ev \<noteq> Blur \<Longrightarrow> ev \<noteq> KeyUp ''Control'' \<Longrightarrow> keeps ctrlPressed s (step lc s ev)"
  "ev \<noteq> Blur \<Longrightarrow> ev \<noteq> KeyUp ''Meta'' \<Longrightarrow> keeps metaPressed s (step lc s ev)"
  "ev \<noteq> Blur \<Longrightarrow> ev \<noteq> KeyUp ''Shift'' \<Longrightarrow> keeps shiftPressed s (step lc s ev)"
  "ev \<noteq> Blur \<Longrightarrow> ev \<noteq> KeyUp ''Alt'' \<Longrightarrow> keeps altPressed s (step lc s ev)"
proof -
  note kd = handleGlobalKeydown_keeps [where s = "pressModifier s key" and key = key and lc = lc for key,
      unfolded keeps_def]
  note cb = closeTab_callback_keeps [unfolded keeps_def]
  show "ev \<noteq> Blur \<Longrightarrow> ev \<noteq> KeyUp ''Control'' \<Longrightarrow> keeps ctrlPressed s (step lc s ev)"
    using kd(1) cb(1)
    by (cases ev) (auto simp: keeps_def Let_def handleGlobalKeyup_flags switchToTab_callback_def)
  show "ev \<noteq> Blur \<Longrightarrow> ev \<noteq> KeyUp ''Meta'' \<Longrightarrow> keeps metaPressed s (step lc s ev)"
    using kd(2) cb(2)
    by (cases ev) (auto simp: keeps_def Let_def handleGlobalKeyup_flags switchToTab_callback_def)
  show "ev \<noteq> Blur \<Longrightarrow> ev \<noteq> KeyUp ''Shift'' \<Longrightarrow> keeps shiftPressed s (step lc s ev)"
    using kd(3) cb(3)
    by (cases ev) (auto simp: keeps_def Let_def handleGlobalKeyup_flags switchToTab_callback_def)
  show "ev \<noteq> Blur \<Longrightarrow> ev \<noteq> KeyUp ''Alt'' \<Longrightarrow> keeps altPressed s (step lc s ev)"
    using kd(4) cb(4)
    by (cases ev) (auto simp: keeps_def Let_def handleGlobalKeyup_flags switchToTab_callback_def)
qed

text \<open>
  Claim C7. After any sequence of events, a window blur leaves all four modifier flags false.
  A flag that is set is cleared by no event but the blur, the key-up of its own key, or one
  that tears the switcher down (visible before, hidden after).
\<close>

theorem blur_clears_modifiers:
  "\<not> ctrlPressed (step lc (foldl (step lc) s evs) Blur)
   \<and> \<not> metaPressed (step lc (foldl (step lc) s evs) Blur)
   \<and> \<not> shiftPressed (step lc (foldl (step lc) s evs) Blur)
   \<and> \<not> altPressed (step lc (foldl (step lc) s evs) Blur)
   \<and> (ctrlPressed s \<and> \<not> ctrlPressed (step lc s ev) \<longrightarrow>
        ev = Blur \<or> ev = KeyUp ''Control'' \<or> (switcherVisible s \<and> \<not> switcherVisible (step lc s ev)))
   \<and> (metaPressed s \<and> \<not> metaPressed (step lc s ev) \<longrightarrow>
        ev = Blur \<or> ev = KeyUp ''Meta'' \<or> (switcherVisible s \<and> \<not> switcherVisible (step lc s ev)))
   \<and> (shiftPressed s \<and> \<not> shiftPressed (step lc s ev) \<longrightarrow>
        ev = Blur \<or> ev = KeyUp ''Shift'' \<or> (switcherVisible s \<and> \<not> switcherVisible (step lc s ev)))
   \<and> (altPressed s \<and> \<not> altPressed (step lc s ev) \<longrightarrow>
        ev = Blur \<or> ev = KeyUp ''Alt'' \<or> (switcherVisible s \<and> \<not> switcherVisible (step lc s ev)))"
  using step_keeps [where ev = ev and s = s and lc = lc] by (simp add: keeps_def) blast

theorem blur_clears_modifiers_witness:
  "ctrlPressed (foldl (step asciiToLowerCase) (initialState 1920) [KeyDown ''Control'', KeyDown ''Shift'', KeyUp ''Shift''])
   \<and> \<not> ctrlPressed (step asciiToLowerCase (foldl (step asciiToLowerCase) (initialState 1920) [KeyDown ''Control'', KeyDown ''Shift'', KeyUp ''Shift'']) Blur)
   \<and> \<not> shiftPressed (step asciiToLowerCase (foldl (step asciiToLowerCase) (initialState 1920) [KeyDown ''Control'', KeyDown ''Shift'', KeyUp ''Shift'']) Blur)
   \<and> ctrlPressed (step asciiToLowerCase (foldl (step asciiToLowerCase) (initialState 1920) [KeyDown ''Control'', KeyDown ''Shift'', KeyUp ''Shift'']) (KeyUp ''Meta''))"
proof -
  let ?s = "foldl (step asciiToLowerCase) (initialState 1920) [KeyDown ''Control'', KeyDown ''Shift'', KeyUp ''Shift'']"
  have c: "ctrlPressed ?s" and v: "\<not> switcherVisible ?s"
    by (simp_all add: initialState_def Let_def)
  note t = blur_clears_modifiers [where lc = asciiToLowerCase and s = "initialState 1920"
      and evs = "[KeyDown ''Control'', KeyDown ''Shift'', KeyUp ''Shift'']"]
  from blur_clears_modifiers [where lc = asciiToLowerCase and s = ?s and evs = "[]"
      and ev = "KeyUp ''Meta''"] c v
  have k: "ctrlPressed (step asciiToLowerCase ?s (KeyUp ''Meta''))"
    by auto
  from t c k show ?thesis by blast
qed

section \<open>Closing the selected tab\<close>

lemma step_closeTabKey:
  assumes "switcherVisible s" "key \<noteq> ''Escape''"
    and "key \<notin> {''Control'', ''Meta'', ''Shift'', ''Alt''}"
    and "lc key = closeTabKey lc s"
  shows "step lc s (KeyDown key) = closeSelectedTab lc s"
  using assms by (simp add: pressModifier_other handleGlobalKeydown_def Let_def)

lemma closeTab_callback_success:
  "currentTabs (closeTab_callback lc s tabId False) = filter (\<lambda>t. tab_id t \<noteq> tabId) (currentTabs s)"
  "switcherVisible (closeTab_callback lc s tabId False) =
     (switcherVisible s \<and> filter (\<lambda>t. tab_id t \<noteq> tabId) (currentTabs s) \<noteq> [])"
  by (simp_all add: closeTab_callback_def Let_def)

lemma closeTab_callback_selectedIndex:
  assumes "0 \<le> selectedIndex s"
  shows "0 \<le> selectedIndex (closeTab_callback lc s tabId False)"
    and "selectedIndex (closeTab_callback lc s tabId False) \<le> selectedIndex s"
    and "filter (\<lambda>t. tab_id t \<noteq> tabId) (currentTabs s) \<noteq> [] \<Longrightarrow>
         selectedIndex (closeTab_callback lc s tabId False)
           < int (length (filter (\<lambda>t. tab_id t \<noteq> tabId) (currentTabs s)))"
  using assms
  by (auto simp: closeTab_callback_def Let_def renderTabs_selectedIndex)

lemma closeTab_callback_index:
  "selectedIndex (closeTab_callback lc s tabId False) =
     (let n = int (length (filter (\<lambda>t. tab_id t \<noteq> tabId) (currentTabs s)));
          i = (if selectedIndex s \<ge> n then max 0 (n - 1) else selectedIndex s)
      in if n = 0 \<or> \<not> shadowRoot s then i
         else max 0 (min i (int (length (getFilteredTabs lc
                (s\<lparr>currentTabs := filter (\<lambda>t. tab_id t \<noteq> tabId) (currentTabs s)\<rparr>))) - 1)))"
proof -
  let ?s1 = "s\<lparr>currentTabs := filter (\<lambda>t. tab_id t \<noteq> tabId) (currentTabs s)\<rparr>"
  have g: "getFilteredTabs lc (?s1\<lparr>selectedIndex := i\<rparr>) = getFilteredTabs lc ?s1" for i
    by (rule getFilteredTabs_cong) simp_all
  show ?thesis
    by (simp add: closeTab_callback_def Let_def renderTabs_selectedIndex g)
qed

lemma closeTab_callback_index_noQuery:
  assumes "0 \<le> selectedIndex s" "searchQuery s = []"
  shows "selectedIndex (closeTab_callback lc s tabId False) =
     (if selectedIndex s \<ge> int (length (filter (\<lambda>t. tab_id t \<noteq> tabId) (currentTabs s)))
      then max 0 (int (length (filter (\<lambda>t. tab_id t \<noteq> tabId) (currentTabs s))) - 1)
      else selectedIndex s)"
  using assms
  by (auto simp: closeTab_callback_index Let_def getFilteredTabs_def)

text \<open>
  The search query is empty in every state the controller reaches: no handler assigns anything
  else to it.
\<close>

lemma step_searchQuery: "searchQuery s = [] \<Longrightarrow> searchQuery (step lc s ev) = []"
  by (cases ev)
    (auto simp: Let_def handleGlobalKeydown_def handleGlobalKeyup_def hideSwitcher_def
      closeSelectedTab_def switchToTab_def switchToTab_callback_def closeTab_callback_def
      onToggleSwitcher_def showSwitcher_def loadSettings_def initialSelection_def onBlur_def
      split: option.splits)

lemma searchQuery_reachable: "searchQuery (foldl (step lc) (initialState width) evs) = []"
proof (induction evs rule: rev_induct)
  case Nil
  then show ?case by (simp add: initialState_def)
next
  case (snoc ev evs)
  then show ?case by (simp add: step_searchQuery del: step.simps)
qed

text \<open>
  Claim C8. With the switcher visible, pressing the configured close-tab key (never Escape or
  a bare modifier: the options page refuses both) on the tab at the selected index of the
  filtered list: if that tab is the one the session started from, the state is unchanged and
  nothing is sent; otherwise the only change is one \<^verbatim>\<open>closeTab\<close> request with its id. When the
  request succeeds, in whatever state \<open>s'\<close> the controller then is, the tab leaves the tab list
  and the switcher is hidden if and only if the list has become empty. The selected index is
  clamped: against the new tab list it is kept when it is below the new length and is the
  last index (or 0 for the empty list) otherwise, and rendering then clamps it against the
  filtered list; with the empty search query and an index that is not negative (both hold in
  every reachable state) the result is exactly the first clamp.
\<close>

theorem closeTab_key:
  assumes "switcherVisible s" and "key \<noteq> ''Escape''"
    and "key \<notin> {''Control'', ''Meta'', ''Shift'', ''Alt''}"
    and "lc key = closeTabKey lc s"
  shows "(\<forall>t. at (getFilteredTabs lc s) (selectedIndex s) = Some t \<and> currentTabId s = Some (tab_id t) \<longrightarrow>
            step lc s (KeyDown key) = s)
       \<and> (\<forall>t. at (getFilteredTabs lc s) (selectedIndex s) = Some t \<and> currentTabId s \<noteq> Some (tab_id t) \<longrightarrow>
            step lc s (KeyDown key) = s\<lparr>sent := sent s @ [CloseTab (tab_id t)]\<rparr>)
       \<and> currentTabs (step lc s' (CloseTabResponse tabId False)) =
            filter (\<lambda>t. tab_id t \<noteq> tabId) (currentTabs s')
       \<and> switcherVisible (step lc s' (CloseTabResponse tabId False)) =
            (switcherVisible s' \<and> filter (\<lambda>t. tab_id t \<noteq> tabId) (currentTabs s') \<noteq> [])
       \<and> selectedIndex (step lc s' (CloseTabResponse tabId False)) =
            (let n = int (length (filter (\<lambda>t. tab_id t \<noteq> tabId) (currentTabs s')));
                 i = (if selectedIndex s' \<ge> n then max 0 (n - 1) else selectedIndex s')
             in if n = 0 \<or> \<not> shadowRoot s' then i
                else max 0 (min i (int (length (getFilteredTabs lc
                       (s'\<lparr>currentTabs := filter (\<lambda>t. tab_id t \<noteq> tabId) (currentTabs s')\<rparr>))) - 1)))
       \<and> (0 \<le> selectedIndex s' \<and> searchQuery s' = [] \<longrightarrow>
            selectedIndex (step lc s' (CloseTabResponse tabId False)) =
              (if selectedIndex s' \<ge> int (length (filter (\<lambda>t. tab_id t \<noteq> tabId) (currentTabs s')))
               then max 0 (int (length (filter (\<lambda>t. tab_id t \<noteq> tabId) (currentTabs s'))) - 1)
               else selectedIndex s'))
       \<and> (0 \<le> selectedIndex s' \<longrightarrow>
            0 \<le> selectedIndex (step lc s' (CloseTabResponse tabId False))
          \<and> selectedIndex (step lc s' (CloseTabResponse tabId False)) \<le> selectedIndex s'
          \<and> (filter (\<lambda>t. tab_id t \<noteq> tabId) (currentTabs s') \<noteq> [] \<longrightarrow>
               selectedIndex (step lc s' (CloseTabResponse tabId False))
                 < int (length (filter (\<lambda>t. tab_id t \<noteq> tabId) (currentTabs s')))))"
proof -
  have e: "step lc s (KeyDown key) = closeSelectedTab lc s"
    using assms by (rule step_closeTabKey)
  have a: "\<forall>t. at (getFilteredTabs lc s) (selectedIndex s) = Some t \<and> currentTabId s = Some (tab_id t) \<longrightarrow>
            step lc s (KeyDown key) = s"
    unfolding e by (auto simp: closeSelectedTab_def Let_def)
  have b: "\<forall>t. at (getFilteredTabs lc s) (selectedIndex s) = Some t \<and> currentTabId s \<noteq> Some (tab_id t) \<longrightarrow>
            step lc s (KeyDown key) = s\<lparr>sent := sent s @ [CloseTab (tab_id t)]\<rparr>"
    unfolding e by (auto simp: closeSelectedTab_def Let_def at_def)
  have c: "currentTabs (step lc s' (CloseTabResponse tabId False)) =
            filter (\<lambda>t. tab_id t \<noteq> tabId) (currentTabs s')"
    "switcherVisible (step lc s' (CloseTabResponse tabId False)) =
            (switcherVisible s' \<and> filter (\<lambda>t. tab_id t \<noteq> tabId) (currentTabs s') \<noteq> [])"
    by (simp_all add: closeTab_callback_success)
  have d: "selectedIndex (step lc s' (CloseTabResponse tabId False)) =
            (let n = int (length (filter (\<lambda>t. tab_id t \<noteq> tabId) (currentTabs s')));
                 i = (if selectedIndex s' \<ge> n then max 0 (n - 1) else selectedIndex s')
             in if n = 0 \<or> \<not> shadowRoot s' then i
                else max 0 (min i (int (length (getFilteredTabs lc
                       (s'\<lparr>currentTabs := filter (\<lambda>t. tab_id t \<noteq> tabId) (currentTabs s')\<rparr>))) - 1)))"
    by (simp only: step.simps closeTab_callback_index)
  have f: "0 \<le> selectedIndex s' \<and> searchQuery s' = [] \<longrightarrow>
            selectedIndex (step lc s' (CloseTabResponse tabId False)) =
              (if selectedIndex s' \<ge> int (length (filter (\<lambda>t. tab_id t \<noteq> tabId) (currentTabs s')))
               then max 0 (int (length (filter (\<lambda>t. tab_id t \<noteq> tabId) (currentTabs s'))) - 1)
               else selectedIndex s')"
    by (simp only: step.simps) (metis closeTab_callback_index_noQuery)
  have g: "0 \<le> selectedIndex s' \<longrightarrow>
            0 \<le> selectedIndex (step lc s' (CloseTabResponse tabId False))
          \<and> selectedIndex (step lc s' (CloseTabResponse tabId False)) \<le> selectedIndex s'
          \<and> (filter (\<lambda>t. tab_id t \<noteq> tabId) (currentTabs s') \<noteq> [] \<longrightarrow>
               selectedIndex (step lc s' (CloseTabResponse tabId False))
                 < int (length (filter (\<lambda>t. tab_id t \<noteq> tabId) (currentTabs s'))))"
    using closeTab_callback_selectedIndex [where s = s' and tabId = tabId and lc = lc]
    by simp
  from a b c d f g show ?thesis by (intro conjI)
qed

theorem closeTab_key_witness:
  "switcherVisible heldTwice
   \<and> asciiToLowerCase ''W'' = closeTabKey asciiToLowerCase heldTwice
   \<and> at (getFilteredTabs asciiToLowerCase heldTwice) (selectedIndex heldTwice) = Some (mkTab 3 ''C'')
   \<and> step asciiToLowerCase heldTwice (KeyDown ''W'') = heldTwice\<lparr>sent := [SwitcherShown, CloseTab 3]\<rparr>
   \<and> currentTabs (step asciiToLowerCase (step asciiToLowerCase heldTwice (KeyDown ''W''))
         (CloseTabResponse 3 False)) = [mkTab 1 ''A'', mkTab 2 ''B'']
   \<and> selectedIndex heldTwice = 2
   \<and> selectedIndex (step asciiToLowerCase (step asciiToLowerCase heldTwice (KeyDown ''W''))
         (CloseTabResponse 3 False)) = 1
   \<and> switcherVisible (step asciiToLowerCase (step asciiToLowerCase heldTwice (KeyDown ''W''))
         (CloseTabResponse 3 False))
   \<and> selectedIndex fiveTabs = 3
   \<and> selectedIndex (step asciiToLowerCase fiveTabs (CloseTabResponse 5 False)) = 3
   \<and> step asciiToLowerCase (heldTwice\<lparr>selectedIndex := 0\<rparr>) (KeyDown ''W'') =
       heldTwice\<lparr>selectedIndex := 0\<rparr>"
proof -
  let ?s1 = "step asciiToLowerCase heldTwice (KeyDown ''W'')"
  let ?s0 = "heldTwice\<lparr>selectedIndex := 0\<rparr>"
  have v: "switcherVisible heldTwice" "switcherVisible ?s0"
    by (simp_all add: heldTwice_eq)
  have k: "asciiToLowerCase ''W'' = closeTabKey asciiToLowerCase heldTwice"
    "asciiToLowerCase ''W'' = closeTabKey asciiToLowerCase ?s0"
    by (simp_all add: heldTwice_eq closeTabKey_def hotkeysOrEmpty_def orDefault_def
        initialState_def asciiToLowerCase_def asciiLowerChar_def)
  have n: "''W'' \<noteq> ''Escape''" "''W'' \<notin> {''Control'', ''Meta'', ''Shift'', ''Alt''}"
    by simp_all
  have t: "at (getFilteredTabs asciiToLowerCase heldTwice) (selectedIndex heldTwice) = Some (mkTab 3 ''C'')"
    "at (getFilteredTabs asciiToLowerCase ?s0) (selectedIndex ?s0) = Some (mkTab 1 ''A'')"
    by (simp_all add: heldTwice_eq getFilteredTabs_def at_def initialState_def)
  have c: "currentTabId heldTwice \<noteq> Some (tab_id (mkTab 3 ''C''))"
    "currentTabId ?s0 = Some (tab_id (mkTab 1 ''A''))"
    "sent heldTwice = [SwitcherShown]" "tab_id (mkTab 3 ''C'') = 3" "selectedIndex heldTwice = 2"
    by (simp_all add: heldTwice_eq mkTab_def)
  note m = closeTab_key [OF v(1) n k(1), where s' = ?s1 and tabId = 3]
  from m t(1) c(1) have "?s1 = heldTwice\<lparr>sent := sent heldTwice @ [CloseTab (tab_id (mkTab 3 ''C''))]\<rparr>"
    by blast
  then have a: "?s1 = heldTwice\<lparr>sent := [SwitcherShown, CloseTab 3]\<rparr>"
    by (simp only: c append.simps)
  have l: "filter (\<lambda>t. tab_id t \<noteq> 3) (currentTabs ?s1) = [mkTab 1 ''A'', mkTab 2 ''B'']"
    "selectedIndex ?s1 = 2" "switcherVisible ?s1" "searchQuery ?s1 = []"
    unfolding a by (simp_all add: heldTwice_eq mkTab_def initialState_def)
  from m have "currentTabs (step asciiToLowerCase ?s1 (CloseTabResponse 3 False)) =
      filter (\<lambda>t. tab_id t \<noteq> 3) (currentTabs ?s1)"
    "switcherVisible (step asciiToLowerCase ?s1 (CloseTabResponse 3 False)) =
      (switcherVisible ?s1 \<and> filter (\<lambda>t. tab_id t \<noteq> 3) (currentTabs ?s1) \<noteq> [])"
    "0 \<le> selectedIndex ?s1 \<and> searchQuery ?s1 = [] \<longrightarrow>
      selectedIndex (step asciiToLowerCase ?s1 (CloseTabResponse 3 False)) =
        (if selectedIndex ?s1 \<ge> int (length (filter (\<lambda>t. tab_id t \<noteq> 3) (currentTabs ?s1)))
         then max 0 (int (length (filter (\<lambda>t. tab_id t \<noteq> 3) (currentTabs ?s1))) - 1)
         else selectedIndex ?s1)"
    by blast+
  then have b: "currentTabs (step asciiToLowerCase ?s1 (CloseTabResponse 3 False)) = [mkTab 1 ''A'', mkTab 2 ''B'']"
    "switcherVisible (step asciiToLowerCase ?s1 (CloseTabResponse 3 False))"
    "selectedIndex (step asciiToLowerCase ?s1 (CloseTabResponse 3 False)) = 1"
    by (simp_all only: l) simp_all
  have h: "selectedIndex fiveTabs = 3" "searchQuery fiveTabs = []"
    "filter (\<lambda>t. tab_id t \<noteq> 5) (currentTabs fiveTabs) =
       [mkTab 1 ''A'', mkTab 2 ''B'', mkTab 3 ''C'', mkTab 4 ''D'']"
    by (simp_all add: fiveTabs_def initialState_def mkTab_def)
  from closeTab_key [OF v(1) n k(1), where s' = fiveTabs and tabId = 5]
  have "0 \<le> selectedIndex fiveTabs \<and> searchQuery fiveTabs = [] \<longrightarrow>
      selectedIndex (step asciiToLowerCase fiveTabs (CloseTabResponse 5 False)) =
        (if selectedIndex fiveTabs \<ge> int (length (filter (\<lambda>t. tab_id t \<noteq> 5) (currentTabs fiveTabs)))
         then max 0 (int (length (filter (\<lambda>t. tab_id t \<noteq> 5) (currentTabs fiveTabs))) - 1)
         else selectedIndex fiveTabs)"
    by blast
  then have i: "selectedIndex (step asciiToLowerCase fiveTabs (CloseTabResponse 5 False)) = 3"
    by (simp only: h) simp
  from closeTab_key [OF v(2) n k(2)] t(2) c(2)
  have d: "step asciiToLowerCase ?s0 (KeyDown ''W'') = ?s0"
    by blast
  from v(1) k(1) t(1) a b c(5) h(1) i d show ?thesis by (intro conjI)
qed

section \<open>Filtering by the search query\<close>



text \<open>
  For a lower-casing that works character by character (as the host's does on ASCII text), the
  match says that some contiguous part of the text equals the query up to case.
\<close>

lemma containsIgnoringCase_charwise:
  "containsIgnoringCase (map f) s q \<longleftrightarrow> (\<exists>u. sublist u s \<and> map f u = map f q)"
proof
  assume "containsIgnoringCase (map f) s q"
  then obtain a b where "map f s = a @ (map f q @ b)"
    by (auto simp: containsIgnoringCase_def sublist_def)
  then have "\<exists>a' r. s = a' @ r \<and> a = map f a' \<and> map f q @ b = map f r"
    by (simp only: map_eq_append_conv)
  then obtain a' r where r: "s = a' @ r" "map f q @ b = map f r"
    by blast
  from r(2) have "\<exists>u b'. r = u @ b' \<and> map f q = map f u \<and> b = map f b'"
    by (simp only: append_eq_map_conv)
  then obtain u b' where u: "r = u @ b'" "map f q = map f u"
    by blast
  have "sublist u s"
    unfolding r(1) u(1) by (rule sublist_appendI)
  with u(2) show "\<exists>u. sublist u s \<and> map f u = map f q"
    by auto
next
  assume "\<exists>u. sublist u s \<and> map f u = map f q"
  then obtain a u b where "s = a @ u @ b" "map f u = map f q"
    by (auto simp: sublist_def)
  then have "map f s = map f a @ map f q @ map f b"
    by simp
  then show "containsIgnoringCase (map f) s q"
    unfolding containsIgnoringCase_def sublist_def by blast
qed



section \<open>The bound on the candidates sent\<close>

text \<open>
  Claim C10. Whenever \<^verbatim>\<open>toggleTabSwitcher\<close> sends its message, the tabs in it are the first 20
  tabs of the MRU order with their screenshots attached, so at most 20; whatever capacity the
  foreground then applies, its tab list and its filtered candidates have at most 20 entries.
\<close>

theorem toggleTabSwitcher_top20:
  "toggleTabSwitcher c mru activeTab isLoaded allTabs direction = Some request \<longrightarrow>
     req_tabs request = Some (attachScreenshots c (take 20 (sortTabsByMRU mru allTabs)))
   \<and> length (requestTabs request) \<le> 20
   \<and> length (currentTabs (onToggleSwitcher lc s request stored)) \<le> 20
   \<and> length (getFilteredTabs lc (onToggleSwitcher lc s request stored)) \<le> 20"
proof
  assume h: "toggleTabSwitcher c mru activeTab isLoaded allTabs direction = Some request"
  then have r: "req_tabs request = Some (attachScreenshots c (take 20 (sortTabsByMRU mru allTabs)))"
    by (auto simp: toggleTabSwitcher_def Let_def split: option.splits if_splits)
  then have l: "length (requestTabs request) \<le> 20"
    by (simp add: requestTabs_def attachScreenshots_def)
  have "length (currentTabs (onToggleSwitcher lc s request stored)) \<le> length (requestTabs request)"
    by (simp add: currentTabs_onToggleSwitcher length_slice0)
  with l have t: "length (currentTabs (onToggleSwitcher lc s request stored)) \<le> 20"
    by simp
  with length_getFilteredTabs [of lc "onToggleSwitcher lc s request stored"]
  have "length (getFilteredTabs lc (onToggleSwitcher lc s request stored)) \<le> 20"
    by simp
  with r l t show "req_tabs request = Some (attachScreenshots c (take 20 (sortTabsByMRU mru allTabs)))
   \<and> length (requestTabs request) \<le> 20
   \<and> length (currentTabs (onToggleSwitcher lc s request stored)) \<le> 20
   \<and> length (getFilteredTabs lc (onToggleSwitcher lc s request stored)) \<le> 20"
    by simp
qed

theorem toggleTabSwitcher_top20_witness:
  "toggleTabSwitcher twoEntryCache [2, 1] (Some (mkTab 1 ''t'')) True manyTabs Forward = Some sentRequest
   \<and> length manyTabs = 25
   \<and> getMaxTabsForWidth (initialState 10000) = Some 58
   \<and> length (requestTabs sentRequest) \<le> 20
   \<and> length (currentTabs (onToggleSwitcher asciiToLowerCase (initialState 10000) sentRequest None)) \<le> 20
   \<and> length (currentTabs (onToggleSwitcher asciiToLowerCase (initialState 10000) sentRequest None)) = 20"
proof -
  have m: "toggleTabSwitcher twoEntryCache [2, 1] (Some (mkTab 1 ''t'')) True manyTabs Forward = Some sentRequest"
    by (simp add: toggleTabSwitcher_def sentRequest_def mkTab_def Let_def)
  have n: "length manyTabs = 25"
    by code_simp
  have w: "getMaxTabsForWidth (initialState 10000) = Some 58"
    by (simp add: getMaxTabsForWidth_def initialState_def)
  from toggleTabSwitcher_top20 [where c = twoEntryCache and mru = "[2, 1]"
      and activeTab = "Some (mkTab 1 ''t'')" and isLoaded = True and allTabs = manyTabs
      and direction = Forward and request = sentRequest and lc = asciiToLowerCase
      and s = "initialState 10000" and stored = None] m
  have b: "length (requestTabs sentRequest) \<le> 20"
    "length (currentTabs (onToggleSwitcher asciiToLowerCase (initialState 10000) sentRequest None)) \<le> 20"
    by simp_all
  have e: "length (currentTabs (onToggleSwitcher asciiToLowerCase (initialState 10000) sentRequest None)) = 20"
    by code_simp
  from m n w b e show ?thesis by (intro conjI)
qed

end
